theory Spec2Isabelle
  imports Complex_Main
begin

section \<open>JavaScript numbers\<close>

text \<open>
  A JavaScript \<^verbatim>\<open>number\<close> is modelled as an exact real extended by the three special
  values of IEEE arithmetic. Rounding, overflow, underflow and the sign of zero are not
  modelled (there is one zero, which behaves as \<^verbatim>\<open>+0\<close>), so a function below computes
  what the code computes only on inputs where the machine rounds nothing away. The
  properties stated of the code are kept to such inputs: integers small enough to be
  added and multiplied exactly, and values of \<open>NaN\<close> that come from \<^verbatim>\<open>0/0\<close> or from
  an operand that already is \<open>NaN\<close>.
\<close>

datatype jsnum = Num real | PInf | NInf | NaN

datatype js_error = TypeError | RangeError | SarosError string

fun is_finite :: "jsnum \<Rightarrow> bool" where
  "is_finite (Num _) = True"
| "is_finite _ = False"

fun js_neg :: "jsnum \<Rightarrow> jsnum" where
  "js_neg (Num a) = Num (- a)"
| "js_neg PInf = NInf"
| "js_neg NInf = PInf"
| "js_neg NaN = NaN"

fun js_add :: "jsnum \<Rightarrow> jsnum \<Rightarrow> jsnum" where
  "js_add (Num a) (Num b) = Num (a + b)"
| "js_add NaN _ = NaN"
| "js_add _ NaN = NaN"
| "js_add PInf NInf = NaN"
| "js_add NInf PInf = NaN"
| "js_add PInf _ = PInf"
| "js_add NInf _ = NInf"
| "js_add _ PInf = PInf"
| "js_add _ NInf = NInf"

definition js_sub :: "jsnum \<Rightarrow> jsnum \<Rightarrow> jsnum" where
  "js_sub a b = js_add a (js_neg b)"

text \<open>The sign of a number that is not \<open>NaN\<close>: \<open>-1\<close>, \<open>0\<close> or \<open>1\<close>.\<close>

fun sign_of :: "jsnum \<Rightarrow> int" where
  "sign_of (Num a) = (if a < 0 then - 1 else if a = 0 then 0 else 1)"
| "sign_of PInf = 1"
| "sign_of NInf = - 1"
| "sign_of NaN = 0"

text \<open>\<^verbatim>\<open>Math.sign\<close>.\<close>

fun js_sign :: "jsnum \<Rightarrow> jsnum" where
  "js_sign NaN = NaN"
| "js_sign a = Num (of_int (sign_of a))"

definition inf_of_sign :: "int \<Rightarrow> jsnum" where
  "inf_of_sign s = (if s = 0 then NaN else if s < 0 then NInf else PInf)"

fun js_mul :: "jsnum \<Rightarrow> jsnum \<Rightarrow> jsnum" where
  "js_mul (Num a) (Num b) = Num (a * b)"
| "js_mul NaN _ = NaN"
| "js_mul _ NaN = NaN"
| "js_mul a b = inf_of_sign (sign_of a * sign_of b)"

fun js_div :: "jsnum \<Rightarrow> jsnum \<Rightarrow> jsnum" where
  "js_div (Num a) (Num b) = (if b = 0 then inf_of_sign (sign_of (Num a)) else Num (a / b))"
| "js_div NaN _ = NaN"
| "js_div _ NaN = NaN"
| "js_div (Num a) _ = Num 0"
| "js_div a (Num b) = inf_of_sign (sign_of a * (if b < 0 then - 1 else 1))"
| "js_div _ _ = NaN"

fun js_lt :: "jsnum \<Rightarrow> jsnum \<Rightarrow> bool" where
  "js_lt (Num a) (Num b) = (a < b)"
| "js_lt NaN _ = False"
| "js_lt _ NaN = False"
| "js_lt NInf b = (b \<noteq> NInf)"
| "js_lt a PInf = (a \<noteq> PInf)"
| "js_lt _ _ = False"

definition js_gt :: "jsnum \<Rightarrow> jsnum \<Rightarrow> bool" where
  "js_gt a b = js_lt b a"

text \<open>Strict equality \<^verbatim>\<open>===\<close> on numbers: \<open>NaN\<close> equals nothing, itself included.\<close>

definition js_eq :: "jsnum \<Rightarrow> jsnum \<Rightarrow> bool" where
  "js_eq a b = (a \<noteq> NaN \<and> a = b)"

definition js_le :: "jsnum \<Rightarrow> jsnum \<Rightarrow> bool" where
  "js_le a b = (js_lt a b \<or> js_eq a b)"

definition js_ge :: "jsnum \<Rightarrow> jsnum \<Rightarrow> bool" where
  "js_ge a b = js_le b a"

fun js_abs :: "jsnum \<Rightarrow> jsnum" where
  "js_abs (Num a) = Num \<bar>a\<bar>"
| "js_abs NaN = NaN"
| "js_abs _ = PInf"

fun js_sqrt :: "jsnum \<Rightarrow> jsnum" where
  "js_sqrt (Num a) = (if a < 0 then NaN else Num (sqrt a))"
| "js_sqrt PInf = PInf"
| "js_sqrt _ = NaN"

text \<open>\<^verbatim>\<open>Math.max(a, b)\<close>: \<open>NaN\<close> as soon as one argument is.\<close>

definition js_max :: "jsnum \<Rightarrow> jsnum \<Rightarrow> jsnum" where
  "js_max a b = (if a = NaN \<or> b = NaN then NaN else if js_lt a b then b else a)"

text \<open>
  \<^verbatim>\<open>Math.pow(base, exponent)\<close>, case by case as the language definition orders them.
  An exponent that is an integer is computed by repeated multiplication, any other one
  through the real power of a positive base.
\<close>

definition is_int :: "real \<Rightarrow> bool" where
  "is_int y = (y = of_int \<lfloor>y\<rfloor>)"

definition is_odd_int :: "real \<Rightarrow> bool" where
  "is_odd_int y = (is_int y \<and> odd \<lfloor>y\<rfloor>)"

fun js_pow :: "jsnum \<Rightarrow> jsnum \<Rightarrow> jsnum" where
  "js_pow _ NaN = NaN"
| "js_pow b (Num y) =
     (if y = 0 then Num 1
      else case b of
        NaN \<Rightarrow> NaN
      | PInf \<Rightarrow> (if 0 < y then PInf else Num 0)
      | NInf \<Rightarrow> (if 0 < y then (if is_odd_int y then NInf else PInf) else Num 0)
      | Num x \<Rightarrow>
          (if x = 0 then (if 0 < y then Num 0 else PInf)
           else if is_int y then Num (x powi \<lfloor>y\<rfloor>)
           else if x < 0 then NaN
           else Num (x powr y)))"
| "js_pow NaN _ = NaN"
| "js_pow (Num x) PInf =
     (if 1 < \<bar>x\<bar> then PInf else if \<bar>x\<bar> = 1 then NaN else Num 0)"
| "js_pow (Num x) NInf =
     (if 1 < \<bar>x\<bar> then Num 0 else if \<bar>x\<bar> = 1 then NaN else PInf)"
| "js_pow _ PInf = PInf"
| "js_pow _ NInf = Num 0"

text \<open>\<^verbatim>\<open>xs.reduce((a, b) => a + b, 0)\<close> and its variants: a left fold from an initial value.\<close>

definition js_sum :: "jsnum list \<Rightarrow> jsnum" where
  "js_sum xs = foldl js_add (Num 0) xs"

text \<open>
  Reading \<^verbatim>\<open>xs[i]\<close> where the result is used as a number: outside the array the read
  gives \<^verbatim>\<open>undefined\<close>, which arithmetic and comparisons turn into \<open>NaN\<close>.
\<close>

definition js_index :: "jsnum list \<Rightarrow> int \<Rightarrow> jsnum" where
  "js_index xs i = (if 0 \<le> i \<and> i < int (length xs) then xs ! nat i else NaN)"

text \<open>\<^verbatim>\<open>xs.slice(start, end)\<close>: a negative bound counts from the end of the array.\<close>

definition js_slice :: "'a list \<Rightarrow> int \<Rightarrow> int \<Rightarrow> 'a list" where
  "js_slice xs start end =
     (let len = int (length xs);
          k = (if start < 0 then max (len + start) 0 else min start len);
          final = (if end < 0 then max (len + end) 0 else min end len)
      in take (nat (final - k)) (drop (nat k) xs))"

section \<open>Distribution helpers\<close>

text \<open>
  The generators are modelled on widths that are integers, the signal of the shifted
  generators on any number. \<^verbatim>\<open>Math.floor(10000 / w)\<close> is then the integer quotient.
\<close>

record Distribution =
  binRelativeId :: jsnum
  bpsX :: jsnum
  bpsY :: jsnum

text \<open>\<^verbatim>\<open>width | 0\<close>: the conversion of an integral number to a signed 32-bit integer.\<close>

definition to_int32 :: "int \<Rightarrow> int" where
  "to_int32 w = (w + 2147483648) mod 4294967296 - 2147483648"

text \<open>
  The loop \<^verbatim>\<open>for (let i = -half; i <= half; i++)\<close> of the generators: the bin of index
  \<open>i\<close> gets \<open>per\<close> on the X side below the centre and \<open>per\<close> on the Y side above it.
  Its identifier is \<open>i\<close>, or \<open>i + shift\<close> in the generators that shift.
\<close>

definition plain_bin :: "int \<Rightarrow> int \<Rightarrow> Distribution" where
  "plain_bin per i =
     \<lparr> binRelativeId = Num (of_int i),
       bpsX = (if i < 0 then Num (of_int per) else Num 0),
       bpsY = (if i > 0 then Num (of_int per) else Num 0) \<rparr>"

definition plain_bins :: "int \<Rightarrow> int \<Rightarrow> Distribution list" where
  "plain_bins half per = map (plain_bin per) [- half .. half]"

definition spread_bin :: "int \<Rightarrow> jsnum \<Rightarrow> int \<Rightarrow> Distribution" where
  "spread_bin per shift i =
     \<lparr> binRelativeId = js_add (Num (of_int i)) shift,
       bpsX = (if i < 0 then Num (of_int per) else Num 0),
       bpsY = (if i > 0 then Num (of_int per) else Num 0) \<rparr>"

definition spread_bins :: "int \<Rightarrow> int \<Rightarrow> jsnum \<Rightarrow> Distribution list" where
  "spread_bins half per shift = map (spread_bin per shift) [- half .. half]"

text \<open>
  \<^verbatim>\<open>bins.find(b => b.binRelativeId === 0)\<close> followed by the two updates of the
  bin found; nothing happens when no bin has the identifier \<open>0\<close>.
\<close>

fun add_to_center :: "jsnum \<Rightarrow> jsnum \<Rightarrow> Distribution list \<Rightarrow> Distribution list" where
  "add_to_center dx dy [] = []"
| "add_to_center dx dy (b # bs) =
     (if js_eq (binRelativeId b) (Num 0)
      then b\<lparr> bpsX := js_add (bpsX b) dx, bpsY := js_add (bpsY b) dy \<rparr> # bs
      else b # add_to_center dx dy bs)"

definition makeCenteredDistribution :: "int \<Rightarrow> Distribution list" where
  "makeCenteredDistribution width =
     (let w = max 1 (to_int32 width);
          half = w div 2;
          per = 10000 div w;
          bins = plain_bins half per;
          used = per * w;
          rem = 10000 - used
      in add_to_center (Num (of_int (rem div 2))) (Num (of_int (rem - rem div 2))) bins)"

text \<open>
  \<^verbatim>\<open>Array.from({ length: width }, ...)\<close>: no element for a width below one (the
  value of \<open>per\<close> is then not used), and a \<^verbatim>\<open>RangeError\<close> for a length above
  \<open>2^32 - 1\<close>. The leftover goes to the first bin, when there is one.
\<close>

definition makeSingleSidedX :: "int \<Rightarrow> js_error + Distribution list" where
  "makeSingleSidedX width =
     (if width > 4294967295 then Inl RangeError
      else let per = 10000 div width;
               arr = map (\<lambda>i. \<lparr> binRelativeId = Num (of_int (- int i - 1)),
                                 bpsX = Num (of_int per), bpsY = Num 0 \<rparr>) [0 ..< nat width];
               used = per * width
           in Inr (case arr of [] \<Rightarrow> []
                   | b # bs \<Rightarrow> b\<lparr> bpsX := js_add (bpsX b) (Num (of_int (10000 - used))) \<rparr> # bs))"

definition makeSingleSidedY :: "int \<Rightarrow> js_error + Distribution list" where
  "makeSingleSidedY width =
     (if width > 4294967295 then Inl RangeError
      else let per = 10000 div width;
               arr = map (\<lambda>i. \<lparr> binRelativeId = Num (of_int (int i + 1)),
                                 bpsX = Num 0, bpsY = Num (of_int per) \<rparr>) [0 ..< nat width];
               used = per * width
           in Inr (case arr of [] \<Rightarrow> []
                   | b # bs \<Rightarrow> b\<lparr> bpsY := js_add (bpsY b) (Num (of_int (10000 - used))) \<rparr> # bs))"

definition makeMomentumDistribution :: "int \<Rightarrow> jsnum \<Rightarrow> Distribution list" where
  "makeMomentumDistribution width momentum =
     (let w = max 1 (to_int32 width);
          half = w div 2;
          shift = js_mul (js_sign momentum) (Num (of_int (w div 4)));
          per = 10000 div w
      in spread_bins half per shift)"

definition makeMeanReversionDistribution :: "int \<Rightarrow> jsnum \<Rightarrow> Distribution list" where
  "makeMeanReversionDistribution width deviation =
     (let w = max 1 (to_int32 width);
          half = w div 2;
          shift = js_mul (js_neg (js_sign deviation)) (Num (of_int (w div 4)));
          per = 10000 div w
      in spread_bins half per shift)"

definition makeConservativeDistribution :: "int \<Rightarrow> Distribution list" where
  "makeConservativeDistribution width =
     (let w = max 1 (min width 5);
          half = w div 2;
          per = 10000 div w
      in plain_bins half per)"

definition makeAggressiveDistribution :: "int \<Rightarrow> Distribution list" where
  "makeAggressiveDistribution width =
     (let w = max 1 (min width 15);
          half = w div 2;
          per = 10000 div w
      in plain_bins half per)"

definition totalBps :: "Distribution list \<Rightarrow> jsnum" where
  "totalBps distribution = foldl (\<lambda>sum d. js_add (js_add sum (bpsX d)) (bpsY d)) (Num 0) distribution"

definition validateDistribution :: "Distribution list \<Rightarrow> bool" where
  "validateDistribution distribution = js_eq (totalBps distribution) (Num 10000)"

record DistributionMetrics =
  dm_totalBps :: jsnum
  dm_activeBins :: nat
  dm_concentration :: jsnum
  dm_skewness :: jsnum

text \<open>
  The mean, the variance and the skewness of \<^verbatim>\<open>getDistributionMetrics\<close>, in exact
  arithmetic. The machine can round a small squared distance down to zero: on two bins
  at an identifier such as \<open>1e-170\<close> the code finds the variance 0 and then an infinite
  skewness, where the exact variance is positive. On the identifiers and weights of the
  data model (integers of 32 bits, weights that are integers of at most 10000 in total)
  the sums and the mean are exact in the machine and the two agree on whether the
  variance is zero.
\<close>

definition bin_total :: "Distribution \<Rightarrow> jsnum" where
  "bin_total d = js_add (bpsX d) (bpsY d)"

definition dist_mean :: "Distribution list \<Rightarrow> jsnum" where
  "dist_mean distribution =
     js_div (foldl (\<lambda>sum d. js_add sum (js_mul (binRelativeId d) (bin_total d))) (Num 0) distribution)
            (totalBps distribution)"

definition variance_term :: "jsnum \<Rightarrow> Distribution \<Rightarrow> jsnum" where
  "variance_term mean d =
     js_mul (js_pow (js_sub (binRelativeId d) mean) (Num 2)) (js_div (bin_total d) (Num 10000))"

definition dist_variance :: "Distribution list \<Rightarrow> jsnum" where
  "dist_variance distribution =
     (let mean = dist_mean distribution
      in foldl (\<lambda>sum d. js_add sum (variance_term mean d)) (Num 0) distribution)"

definition skewness_term :: "jsnum \<Rightarrow> jsnum \<Rightarrow> Distribution \<Rightarrow> jsnum" where
  "skewness_term mean stdDev d =
     js_mul (js_pow (js_div (js_sub (binRelativeId d) mean) stdDev) (Num 3))
            (js_div (bin_total d) (Num 10000))"

definition dist_skewness :: "Distribution list \<Rightarrow> jsnum" where
  "dist_skewness distribution =
     (let mean = dist_mean distribution;
          stdDev = js_sqrt (dist_variance distribution)
      in foldl (\<lambda>sum d. js_add sum (skewness_term mean stdDev d)) (Num 0) distribution)"

definition getDistributionMetrics :: "Distribution list \<Rightarrow> DistributionMetrics" where
  "getDistributionMetrics distribution =
     \<lparr> dm_totalBps = totalBps distribution,
       dm_activeBins = length (filter (\<lambda>d. js_gt (bpsX d) (Num 0) \<or> js_gt (bpsY d) (Num 0)) distribution),
       dm_concentration =
         foldl (\<lambda>sum d. js_add sum (js_pow (js_div (bin_total d) (Num 10000)) (Num 2))) (Num 0) distribution,
       dm_skewness = dist_skewness distribution \<rparr>"

section \<open>Limit orders and stop-loss orders\<close>

datatype side = Buy | Sell

datatype limit_status = Pending | Filled | Cancelled | Expired

datatype stop_status = SL_Active | SL_Triggered | SL_Cancelled

text \<open>
  A \<^verbatim>\<open>Date\<close> object holds a time in milliseconds, or no time at all (an invalid date);
  \<^verbatim>\<open>new Date(t)\<close> keeps \<open>t\<close> only within \<open>8.64 * 10^15\<close> milliseconds of the epoch.
  The current time \<^verbatim>\<open>new Date()\<close> is always valid and is an integer parameter below.
\<close>

datatype date = Date int | InvalidDate

definition new_Date :: "int \<Rightarrow> date" where
  "new_Date t = (if \<bar>t\<bar> \<le> 8640000000000000 then Date t else InvalidDate)"

text \<open>
  \<^verbatim>\<open>new Date(x)\<close> for a number \<open>x\<close> that need not be an integer: the range is tested
  on \<open>x\<close> and the time kept is \<open>x\<close> truncated towards zero.
\<close>

definition js_trunc :: "real \<Rightarrow> int" where
  "js_trunc x = (if 0 \<le> x then \<lfloor>x\<rfloor> else \<lceil>x\<rceil>)"

definition new_Date_of :: "real \<Rightarrow> date" where
  "new_Date_of x = (if \<bar>x\<bar> \<le> 8640000000000000 then Date (js_trunc x) else InvalidDate)"

text \<open>\<^verbatim>\<open>new Date() > d\<close>: false when \<open>d\<close> is invalid.\<close>

fun now_after :: "int \<Rightarrow> date \<Rightarrow> bool" where
  "now_after now (Date t) = (t < now)"
| "now_after now InvalidDate = False"

record LimitOrder =
  lo_id :: string
  lo_pair :: string
  lo_side :: side
  lo_amount :: jsnum
  lo_price :: jsnum
  lo_binId :: jsnum
  lo_status :: limit_status
  lo_createdAt :: int
  lo_expiresAt :: "date option"
  lo_filledAt :: "int option"
  lo_filledAmount :: "jsnum option"
  lo_filledPrice :: "jsnum option"

record StopLossOrder =
  sl_id :: string
  sl_position :: string
  sl_triggerPrice :: jsnum
  sl_amount :: jsnum
  sl_status :: stop_status
  sl_createdAt :: int
  sl_triggeredAt :: "int option"

record OrderBookEntry =
  ob_price :: jsnum
  ob_amount :: jsnum
  ob_binId :: jsnum
  ob_side :: side

text \<open>
  The three \<^verbatim>\<open>Map\<close>s of the service, each as the list of its entries in insertion
  order. \<^verbatim>\<open>set\<close> on a key that is present replaces the value where it stands.
\<close>

record LimitOrderService =
  orders :: "(string \<times> LimitOrder) list"
  stopLossOrders :: "(string \<times> StopLossOrder) list"
  orderBook :: "(string \<times> OrderBookEntry list) list"

fun map_set :: "'k \<Rightarrow> 'v \<Rightarrow> ('k \<times> 'v) list \<Rightarrow> ('k \<times> 'v) list" where
  "map_set k v [] = [(k, v)]"
| "map_set k v ((k', v') # m) = (if k' = k then (k, v) # m else (k', v') # map_set k v m)"

definition empty_service :: LimitOrderService where
  "empty_service = \<lparr> orders = [], stopLossOrders = [], orderBook = [] \<rparr>"

text \<open>
  The part of \<^verbatim>\<open>dlmmService\<close> that the order service reads: the position records of
  \<^verbatim>\<open>getUserPositions\<close>, of which only these two fields are used.
\<close>

record PositionData =
  pd_position :: string
  pd_totalValueUSD :: jsnum

text \<open>\<^verbatim>\<open>Math.log\<close> and \<^verbatim>\<open>Math.round\<close>.\<close>

fun js_log :: "jsnum \<Rightarrow> jsnum" where
  "js_log (Num a) = (if a < 0 then NaN else if a = 0 then NInf else Num (ln a))"
| "js_log PInf = PInf"
| "js_log _ = NaN"

fun js_round :: "jsnum \<Rightarrow> jsnum" where
  "js_round (Num a) = Num (of_int \<lfloor>a + 1 / 2\<rfloor>)"
| "js_round a = a"

definition findBinForPrice :: "jsnum \<Rightarrow> jsnum" where
  "findBinForPrice price =
     (let basePrice = Num 100;
          binStep = Num (1 / 100);
          binOffset = js_round (js_div (js_log (js_div price basePrice))
                                       (js_log (js_add (Num 1) binStep)))
      in binOffset)"

text \<open>
  \<^verbatim>\<open>entries.sort(cmp)\<close> is stable; it is modelled by insertion, which gives the order of
  every stable sort when \<open>cmp\<close> is a consistent comparison. With entries of both sides
  the comparison below is not consistent and the language leaves the order open: an
  engine may return the entries of a book with both sides in another order than the
  insertion does. The entries are the same in any case, and no statement below depends
  on their order.
\<close>

definition book_cmp :: "OrderBookEntry \<Rightarrow> OrderBookEntry \<Rightarrow> jsnum" where
  "book_cmp a b =
     (if ob_side a = Buy then js_sub (ob_price b) (ob_price a)
      else js_sub (ob_price a) (ob_price b))"

fun sort_insert :: "('a \<Rightarrow> 'a \<Rightarrow> jsnum) \<Rightarrow> 'a \<Rightarrow> 'a list \<Rightarrow> 'a list" where
  "sort_insert cmp x [] = [x]"
| "sort_insert cmp x (y # ys) =
     (if js_gt (cmp x y) (Num 0) then y # sort_insert cmp x ys else x # y # ys)"

definition js_sort :: "('a \<Rightarrow> 'a \<Rightarrow> jsnum) \<Rightarrow> 'a list \<Rightarrow> 'a list" where
  "js_sort cmp xs = foldr (sort_insert cmp) xs []"

definition book_entries :: "LimitOrderService \<Rightarrow> string \<Rightarrow> OrderBookEntry list" where
  "book_entries s p = (case map_of (orderBook s) p of None \<Rightarrow> [] | Some es \<Rightarrow> es)"

definition entry_of :: "LimitOrder \<Rightarrow> OrderBookEntry" where
  "entry_of order =
     \<lparr> ob_price = lo_price order, ob_amount = lo_amount order,
       ob_binId = lo_binId order, ob_side = lo_side order \<rparr>"

definition addToOrderBook :: "LimitOrder \<Rightarrow> LimitOrderService \<Rightarrow> LimitOrderService" where
  "addToOrderBook order s =
     (let entries = book_entries s (lo_pair order);
          pushed = entries @ [entry_of order]
      in s\<lparr> orderBook := map_set (lo_pair order) (js_sort book_cmp pushed) (orderBook s) \<rparr>)"

definition entry_matches :: "LimitOrder \<Rightarrow> OrderBookEntry \<Rightarrow> bool" where
  "entry_matches order entry =
     (js_eq (ob_price entry) (lo_price order) \<and> js_eq (ob_amount entry) (lo_amount order)
      \<and> ob_side entry = lo_side order)"

text \<open>\<^verbatim>\<open>findIndex\<close> followed by \<^verbatim>\<open>splice(index, 1)\<close>: the first match is removed.\<close>

fun remove_first :: "('a \<Rightarrow> bool) \<Rightarrow> 'a list \<Rightarrow> 'a list" where
  "remove_first P [] = []"
| "remove_first P (x # xs) = (if P x then xs else x # remove_first P xs)"

definition removeFromOrderBook :: "LimitOrder \<Rightarrow> LimitOrderService \<Rightarrow> LimitOrderService" where
  "removeFromOrderBook order s =
     (case map_of (orderBook s) (lo_pair order) of
        None \<Rightarrow> s
      | Some entries \<Rightarrow>
          s\<lparr> orderBook := map_set (lo_pair order) (remove_first (entry_matches order) entries)
                                  (orderBook s) \<rparr>)"

text \<open>
  \<^verbatim>\<open>createLimitOrder\<close>. What it reads from outside is a parameter: \<open>pairInfo\<close> is the
  outcome of \<^verbatim>\<open>dlmmService.getPairInfo\<close> (an error, \<^verbatim>\<open>null\<close> or a pair), \<open>orderId\<close>
  the generated identifier and \<open>now\<close> the clock. Every error is rethrown as it is.
\<close>

record CreateParams =
  cp_pair :: string
  cp_side :: side
  cp_amount :: jsnum
  cp_price :: jsnum
  cp_expiresAt :: "date option"

definition createLimitOrder ::
  "(js_error + unit option) \<Rightarrow> string \<Rightarrow> int \<Rightarrow> CreateParams \<Rightarrow> LimitOrderService
     \<Rightarrow> LimitOrderService \<times> (js_error + LimitOrder)" where
  "createLimitOrder pairInfo orderId now params s =
     (case pairInfo of
        Inl e \<Rightarrow> (s, Inl e)
      | Inr None \<Rightarrow> (s, Inl (SarosError ''Pair not found''))
      | Inr (Some _) \<Rightarrow>
          (let binId = findBinForPrice (cp_price params)
           in if js_eq binId (Num (- 1))
              then (s, Inl (SarosError ''Price out of range for current bins''))
              else let order = \<lparr> lo_id = orderId, lo_pair = cp_pair params,
                                   lo_side = cp_side params, lo_amount = cp_amount params,
                                   lo_price = cp_price params, lo_binId = binId,
                                   lo_status = Pending, lo_createdAt = now,
                                   lo_expiresAt = cp_expiresAt params, lo_filledAt = None,
                                   lo_filledAmount = None, lo_filledPrice = None \<rparr>
                   in (addToOrderBook order (s\<lparr> orders := map_set orderId order (orders s) \<rparr>),
                       Inr order)))"

definition cancelLimitOrder ::
  "string \<Rightarrow> LimitOrderService \<Rightarrow> LimitOrderService \<times> (js_error + bool)" where
  "cancelLimitOrder orderId s =
     (case map_of (orders s) orderId of
        None \<Rightarrow> (s, Inl (SarosError ''Order not found''))
      | Some order \<Rightarrow>
          if lo_status order \<noteq> Pending then (s, Inl (SarosError ''Order cannot be cancelled''))
          else let order' = order\<lparr> lo_status := Cancelled \<rparr>
               in (removeFromOrderBook order' (s\<lparr> orders := map_set orderId order' (orders s) \<rparr>),
                   Inr True))"

text \<open>
  One pass of \<^verbatim>\<open>checkOrderFills\<close>. What the pass observes while it handles the order of
  a given identifier is a parameter: the price parsed from \<^verbatim>\<open>getMarketData\<close> (or the
  error of that call, which ends the pass and leaves the orders handled so far as they
  are), the clock read by the expiry test and the clock read on a fill.
\<close>

record FillObservations =
  fo_price :: "string \<Rightarrow> js_error + jsnum"
  fo_now :: "string \<Rightarrow> int"
  fo_fill_time :: "string \<Rightarrow> int"

definition should_fill :: "LimitOrder \<Rightarrow> jsnum \<Rightarrow> bool" where
  "should_fill order currentPrice =
     (if lo_side order = Buy \<and> js_le currentPrice (lo_price order) then True
      else if lo_side order = Sell \<and> js_ge currentPrice (lo_price order) then True
      else False)"

definition has_expired :: "FillObservations \<Rightarrow> string \<Rightarrow> LimitOrder \<Rightarrow> bool" where
  "has_expired obs orderId order =
     (case lo_expiresAt order of
        None \<Rightarrow> False
      | Some d \<Rightarrow> now_after (fo_now obs orderId) d)"

text \<open>
  The loop over the entries of \<^verbatim>\<open>this.orders\<close>: the entries still to visit, the order
  book and the orders filled so far go in; the visited entries as they are left, the order
  book and the outcome come out.
\<close>

fun fills_loop ::
  "FillObservations \<Rightarrow> (string \<times> LimitOrder) list \<Rightarrow> LimitOrderService \<Rightarrow> LimitOrder list
     \<Rightarrow> (string \<times> LimitOrder) list \<times> LimitOrderService \<times> (js_error + LimitOrder list)" where
  "fills_loop obs [] s filledOrders = ([], s, Inr filledOrders)"
| "fills_loop obs ((orderId, order) # rest) s filledOrders =
     (if lo_status order \<noteq> Pending
      then (case fills_loop obs rest s filledOrders of
              (rest', s', r) \<Rightarrow> ((orderId, order) # rest', s', r))
      else case fo_price obs orderId of
        Inl e \<Rightarrow> ((orderId, order) # rest, s, Inl e)
      | Inr currentPrice \<Rightarrow>
          (let shouldFill = should_fill order currentPrice
           in if has_expired obs orderId order
              then (case fills_loop obs rest s filledOrders of
                      (rest', s', r) \<Rightarrow> ((orderId, order\<lparr> lo_status := Expired \<rparr>) # rest', s', r))
              else if shouldFill
              then (let order' = order\<lparr> lo_status := Filled,
                                          lo_filledAt := Some (fo_fill_time obs orderId),
                                          lo_filledAmount := Some (lo_amount order),
                                          lo_filledPrice := Some currentPrice \<rparr>
                    in case fills_loop obs rest (removeFromOrderBook order' s)
                              (filledOrders @ [order']) of
                         (rest', s', r) \<Rightarrow> ((orderId, order') # rest', s', r))
              else (case fills_loop obs rest s filledOrders of
                      (rest', s', r) \<Rightarrow> ((orderId, order) # rest', s', r))))"

definition checkOrderFills ::
  "FillObservations \<Rightarrow> LimitOrderService \<Rightarrow> LimitOrderService \<times> (js_error + LimitOrder list)" where
  "checkOrderFills obs s =
     (case fills_loop obs (orders s) s [] of
        (orders', s', r) \<Rightarrow> (s'\<lparr> orders := orders' \<rparr>, r))"

text \<open>
  One pass of \<^verbatim>\<open>checkStopLossTriggers\<close>, with the outcome of \<^verbatim>\<open>getUserPositions\<close> and
  the clock as observations made while the order of a given identifier is handled.
\<close>

record TriggerObservations =
  to_positions :: "string \<Rightarrow> js_error + PositionData list"
  to_now :: "string \<Rightarrow> int"

fun triggers_loop ::
  "TriggerObservations \<Rightarrow> (string \<times> StopLossOrder) list \<Rightarrow> StopLossOrder list
     \<Rightarrow> (string \<times> StopLossOrder) list \<times> (js_error + StopLossOrder list)" where
  "triggers_loop obs [] triggeredOrders = ([], Inr triggeredOrders)"
| "triggers_loop obs ((orderId, order) # rest) triggeredOrders =
     (if sl_status order \<noteq> SL_Active
      then (case triggers_loop obs rest triggeredOrders of
              (rest', r) \<Rightarrow> ((orderId, order) # rest', r))
      else case to_positions obs orderId of
        Inl e \<Rightarrow> ((orderId, order) # rest, Inl e)
      | Inr positions \<Rightarrow>
          (case find (\<lambda>p. pd_position p = sl_position order) positions of
             None \<Rightarrow> (case triggers_loop obs rest triggeredOrders of
                        (rest', r) \<Rightarrow> ((orderId, order) # rest', r))
           | Some position \<Rightarrow>
               (let currentPrice = js_div (pd_totalValueUSD position) (pd_totalValueUSD position)
                in if js_le currentPrice (sl_triggerPrice order)
                   then (let order' = order\<lparr> sl_status := SL_Triggered,
                                               sl_triggeredAt := Some (to_now obs orderId) \<rparr>
                         in case triggers_loop obs rest (triggeredOrders @ [order']) of
                              (rest', r) \<Rightarrow> ((orderId, order') # rest', r))
                   else (case triggers_loop obs rest triggeredOrders of
                           (rest', r) \<Rightarrow> ((orderId, order) # rest', r)))))"

definition checkStopLossTriggers ::
  "TriggerObservations \<Rightarrow> LimitOrderService \<Rightarrow> LimitOrderService \<times> (js_error + StopLossOrder list)" where
  "checkStopLossTriggers obs s =
     (case triggers_loop obs (stopLossOrders s) [] of
        (orders', r) \<Rightarrow> (s\<lparr> stopLossOrders := orders' \<rparr>, r))"

section \<open>Strategy simulator\<close>

text \<open>
  The strategy tag and the risk tolerance range over the values of their types, so the
  \<^verbatim>\<open>default\<close> branches of the \<^verbatim>\<open>switch\<close> statements are never taken.
\<close>

datatype strategy = Passive | Active | Momentum | MeanReversion

datatype risk = Low | Medium | High

datatype action = Rebalance | AddLiquidity | RemoveLiquidity

text \<open>
  The reason strings, one constructor for each. Where the string contains a formatted
  number (\<^verbatim>\<open>toFixed(2)\<close> of a percentage), the constructor carries that percentage.
\<close>

datatype reason =
    WeeklyRebalance
  | NoRebalanceNeeded
  | HighVolatilityDetected jsnum
  | VolatilityWithinThreshold
  | InsufficientData
  | MomentumDetected jsnum
  | NoMomentumSignal
  | MeanReversionSignal jsnum
  | NoMeanReversionSignal

record SimulationParams =
  initialCapital :: jsnum
  strategy :: strategy
  duration :: real
  rebalanceFrequency :: jsnum
  riskTolerance :: risk
  pair :: string

record RebalanceEvent =
  ev_timestamp :: date
  ev_action :: action
  ev_amount :: jsnum
  ev_price :: jsnum
  ev_reason :: reason

record AdvancedMetrics =
  volatility :: jsnum
  calmarRatio :: jsnum
  sortinoRatio :: jsnum
  var95 :: jsnum
  cvar95 :: jsnum

record SimulationResult =
  finalValue :: jsnum
  totalReturn :: jsnum
  annualizedReturn :: jsnum
  maxDrawdown :: jsnum
  sharpeRatio :: jsnum
  winRate :: jsnum
  totalFees :: jsnum
  netReturn :: jsnum
  dailyReturns :: "jsnum list"
  portfolioValues :: "jsnum list"
  rebalanceEvents :: "RebalanceEvent list"
  metrics :: AdvancedMetrics

record StrategyResult =
  sr_rebalance :: bool
  sr_newDistribution :: "Distribution list option"
  sr_reason :: reason

definition day_ms :: int where
  "day_ms = 24 * 60 * 60 * 1000"

subsection \<open>Distributions of the strategies\<close>

definition generateBalancedDistribution :: "risk \<Rightarrow> Distribution list" where
  "generateBalancedDistribution tolerance =
     (let width = (if tolerance = Low then 5 else if tolerance = Medium then 7 else 9);
          per = 10000 div width
      in plain_bins (width div 2) per)"

definition generateVolatilityAdjustedDistribution :: "SimulationParams \<Rightarrow> jsnum \<Rightarrow> Distribution list" where
  "generateVolatilityAdjustedDistribution params priceChange =
     (let width = (if riskTolerance params = Low then 3
                   else if riskTolerance params = Medium then 5 else 7);
          per = 10000 div width;
          shift = js_mul (js_sign priceChange) (Num (of_int (width div 4)))
      in spread_bins (width div 2) per shift)"

definition generateMomentumDistribution :: "SimulationParams \<Rightarrow> jsnum \<Rightarrow> Distribution list" where
  "generateMomentumDistribution params momentum =
     (let width = (if riskTolerance params = Low then 3
                   else if riskTolerance params = Medium then 5 else 7);
          per = 10000 div width;
          shift = js_mul (js_sign momentum) (Num (of_int (width div 3)))
      in spread_bins (width div 2) per shift)"

definition generateMeanReversionDistribution :: "SimulationParams \<Rightarrow> jsnum \<Rightarrow> Distribution list" where
  "generateMeanReversionDistribution params deviation =
     (let width = (if riskTolerance params = Low then 5
                   else if riskTolerance params = Medium then 7 else 9);
          per = 10000 div width;
          shift = js_mul (js_neg (js_sign deviation)) (Num (of_int (width div 4)))
      in spread_bins (width div 2) per shift)"

definition getLiquidityExposure :: "SimulationParams \<Rightarrow> jsnum" where
  "getLiquidityExposure params =
     (case strategy params of
        Passive \<Rightarrow> Num (8 / 10)
      | Active \<Rightarrow> Num (9 / 10)
      | Momentum \<Rightarrow> Num (85 / 100)
      | MeanReversion \<Rightarrow> Num (75 / 100))"

definition getVolatilityThreshold :: "risk \<Rightarrow> jsnum" where
  "getVolatilityThreshold tolerance =
     (case tolerance of
        Low \<Rightarrow> Num (1 / 100)
      | Medium \<Rightarrow> Num (2 / 100)
      | High \<Rightarrow> Num (3 / 100))"

subsection \<open>Decisions of the strategies\<close>

definition applyPassiveStrategy :: "SimulationParams \<Rightarrow> nat \<Rightarrow> StrategyResult" where
  "applyPassiveStrategy params dayIndex =
     (if dayIndex mod 7 = 0
      then \<lparr> sr_rebalance = True,
             sr_newDistribution = Some (generateBalancedDistribution (riskTolerance params)),
             sr_reason = WeeklyRebalance \<rparr>
      else \<lparr> sr_rebalance = False, sr_newDistribution = None, sr_reason = NoRebalanceNeeded \<rparr>)"

definition applyActiveStrategy :: "SimulationParams \<Rightarrow> jsnum \<Rightarrow> jsnum \<Rightarrow> nat \<Rightarrow> StrategyResult" where
  "applyActiveStrategy params currentPrice priceChange dayIndex =
     (let volatilityThreshold = getVolatilityThreshold (riskTolerance params)
      in if js_gt (js_abs priceChange) volatilityThreshold
         then \<lparr> sr_rebalance = True,
                sr_newDistribution = Some (generateVolatilityAdjustedDistribution params priceChange),
                sr_reason = HighVolatilityDetected (js_mul priceChange (Num 100)) \<rparr>
         else \<lparr> sr_rebalance = False, sr_newDistribution = None,
                sr_reason = VolatilityWithinThreshold \<rparr>)"

definition applyMomentumStrategy :: "SimulationParams \<Rightarrow> jsnum list \<Rightarrow> nat \<Rightarrow> StrategyResult" where
  "applyMomentumStrategy params priceData dayIndex =
     (if dayIndex < 5
      then \<lparr> sr_rebalance = False, sr_newDistribution = None, sr_reason = InsufficientData \<rparr>
      else let shortTerm = js_slice priceData (int dayIndex - 5) (int dayIndex);
               longTerm = js_slice priceData (int dayIndex - 20) (int dayIndex);
               shortTermReturn =
                 js_div (js_sub (js_index shortTerm (int (length shortTerm) - 1)) (js_index shortTerm 0))
                        (js_index shortTerm 0);
               longTermReturn =
                 js_div (js_sub (js_index longTerm (int (length longTerm) - 1)) (js_index longTerm 0))
                        (js_index longTerm 0)
           in if js_gt shortTermReturn longTermReturn \<and> js_gt shortTermReturn (Num (2 / 100))
              then \<lparr> sr_rebalance = True,
                     sr_newDistribution = Some (generateMomentumDistribution params shortTermReturn),
                     sr_reason = MomentumDetected (js_mul shortTermReturn (Num 100)) \<rparr>
              else \<lparr> sr_rebalance = False, sr_newDistribution = None,
                     sr_reason = NoMomentumSignal \<rparr>)"

definition applyMeanReversionStrategy :: "SimulationParams \<Rightarrow> jsnum list \<Rightarrow> nat \<Rightarrow> StrategyResult" where
  "applyMeanReversionStrategy params priceData dayIndex =
     (if dayIndex < 10
      then \<lparr> sr_rebalance = False, sr_newDistribution = None, sr_reason = InsufficientData \<rparr>
      else let recent = js_slice priceData (int dayIndex - 5) (int dayIndex);
               historical = js_slice priceData (int dayIndex - 20) (int dayIndex - 5);
               recentAvg = js_div (js_sum recent) (Num (of_nat (length recent)));
               historicalAvg = js_div (js_sum historical) (Num (of_nat (length historical)));
               deviation = js_div (js_sub recentAvg historicalAvg) historicalAvg
           in if js_gt (js_abs deviation) (Num (5 / 100))
              then \<lparr> sr_rebalance = True,
                     sr_newDistribution = Some (generateMeanReversionDistribution params deviation),
                     sr_reason = MeanReversionSignal (js_mul deviation (Num 100)) \<rparr>
              else \<lparr> sr_rebalance = False, sr_newDistribution = None,
                     sr_reason = NoMeanReversionSignal \<rparr>)"

definition applyStrategy ::
  "SimulationParams \<Rightarrow> jsnum \<Rightarrow> jsnum \<Rightarrow> jsnum \<Rightarrow> nat \<Rightarrow> jsnum list \<Rightarrow> StrategyResult" where
  "applyStrategy params currentPrice priceChange portfolioValue dayIndex priceData =
     (case strategy params of
        Passive \<Rightarrow> applyPassiveStrategy params dayIndex
      | Active \<Rightarrow> applyActiveStrategy params currentPrice priceChange dayIndex
      | Momentum \<Rightarrow> applyMomentumStrategy params priceData dayIndex
      | MeanReversion \<Rightarrow> applyMeanReversionStrategy params priceData dayIndex)"

record RebalanceOutcome =
  ro_newValue :: jsnum
  ro_fees :: jsnum
  ro_amount :: jsnum

definition executeRebalance ::
  "jsnum \<Rightarrow> Distribution list option \<Rightarrow> jsnum \<Rightarrow> string \<Rightarrow> RebalanceOutcome" where
  "executeRebalance currentValue distribution currentPrice pair_name =
     (let feeRate = Num (3 / 1000);
          fees = js_mul currentValue feeRate;
          newValue = js_sub currentValue fees
      in \<lparr> ro_newValue = newValue, ro_fees = fees, ro_amount = currentValue \<rparr>)"

subsection \<open>Price data\<close>

text \<open>
  \<^verbatim>\<open>Math.ceil((endDate.getTime() - startDate.getTime()) / day)\<close>: no number when a date
  is invalid, and then the loop below adds no price.
\<close>

fun days_between :: "date \<Rightarrow> date \<Rightarrow> int option" where
  "days_between (Date s) (Date e) = Some (- ((s - e) div day_ms))"
| "days_between _ _ = None"

text \<open>
  The draws of \<^verbatim>\<open>Math.random()\<close> are a parameter: \<open>rnd i\<close> is the draw of the loop
  iteration \<open>i\<close>.
\<close>

fun price_steps :: "(nat \<Rightarrow> real) \<Rightarrow> jsnum \<Rightarrow> nat list \<Rightarrow> jsnum list" where
  "price_steps rnd currentPrice [] = []"
| "price_steps rnd currentPrice (i # is) =
     (let volatility' = Num (2 / 100);
          drift = Num (1 / 10000);
          randomChange = js_add (js_mul (js_sub (Num (rnd i)) (Num (5 / 10))) volatility') drift;
          currentPrice' = js_mul currentPrice (js_add (Num 1) randomChange)
      in currentPrice' # price_steps rnd currentPrice' is)"

definition generatePriceData :: "(nat \<Rightarrow> real) \<Rightarrow> date \<Rightarrow> date \<Rightarrow> string \<Rightarrow> jsnum list" where
  "generatePriceData rnd startDate endDate pair_name =
     (let days = days_between startDate endDate
      in Num 100 # price_steps rnd (Num 100)
                     (case days of None \<Rightarrow> [] | Some n \<Rightarrow> [1 ..< nat n]))"

subsection \<open>Statistics\<close>

definition drawdown_step :: "jsnum \<times> jsnum \<Rightarrow> jsnum \<Rightarrow> jsnum \<times> jsnum" where
  "drawdown_step acc v =
     (case acc of (maxDrawdown', peak) \<Rightarrow>
        (let peak' = (if js_gt v peak then v else peak);
             drawdown = js_div (js_sub peak' v) peak'
         in (js_max maxDrawdown' drawdown, peak')))"

definition calculateMaxDrawdown :: "jsnum list \<Rightarrow> jsnum" where
  "calculateMaxDrawdown values_list = fst (foldl drawdown_step (Num 0, js_index values_list 0) values_list)"

definition average :: "jsnum list \<Rightarrow> jsnum" where
  "average returns = js_div (js_sum returns) (Num (of_nat (length returns)))"

definition variance_of :: "jsnum list \<Rightarrow> jsnum" where
  "variance_of returns =
     (let avgReturn = average returns
      in js_div (foldl (\<lambda>a b. js_add a (js_pow (js_sub b avgReturn) (Num 2))) (Num 0) returns)
                (Num (of_nat (length returns))))"

text \<open>
  The mean and the deviations are exact here. The machine rounds the mean, so on a series
  of equal returns such as \<open>[0.1, 0.1, 0.1]\<close> the code may find a standard deviation that
  is tiny but not zero, and return a large quotient where the model returns 0. The
  function is used below on the empty series and on a series of a single return, where
  the code rounds nothing: the mean of one return is that return.
\<close>

definition calculateSharpeRatio :: "jsnum list \<Rightarrow> jsnum" where
  "calculateSharpeRatio returns =
     (let avgReturn = average returns;
          variance = variance_of returns;
          stdDev = js_sqrt variance
      in if js_eq stdDev (Num 0) then Num 0 else js_div avgReturn stdDev)"

text \<open>\<^verbatim>\<open>x || 0\<close> for a number or \<^verbatim>\<open>undefined\<close> read from an array.\<close>

definition or_zero :: "jsnum \<Rightarrow> jsnum" where
  "or_zero x = (if x = NaN \<or> x = Num 0 then Num 0 else x)"

definition calculateAdvancedMetrics :: "jsnum list \<Rightarrow> jsnum list \<Rightarrow> AdvancedMetrics" where
  "calculateAdvancedMetrics returns values_list =
     (let avgReturn = average returns;
          variance = variance_of returns;
          volatility' = js_sqrt variance;
          maxDrawdown' = calculateMaxDrawdown values_list;
          calmarRatio' = (if js_eq maxDrawdown' (Num 0) then Num 0 else js_div avgReturn maxDrawdown');
          negativeReturns = filter (\<lambda>r. js_lt r (Num 0)) returns;
          downsideVariance =
            js_div (foldl (\<lambda>a b. js_add a (js_pow b (Num 2))) (Num 0) negativeReturns)
                   (Num (of_nat (length negativeReturns)));
          downsideDeviation = js_sqrt downsideVariance;
          sortinoRatio' = (if js_eq downsideDeviation (Num 0) then Num 0
                          else js_div avgReturn downsideDeviation);
          sortedReturns = js_sort js_sub returns;
          var95Index = length sortedReturns div 20;
          var95' = or_zero (js_index sortedReturns (int var95Index));
          cvar95' = js_div (js_sum (js_slice sortedReturns 0 (int var95Index + 1)))
                          (Num (of_nat (var95Index + 1)))
      in \<lparr> volatility = volatility', calmarRatio = calmarRatio', sortinoRatio = sortinoRatio',
           var95 = var95', cvar95 = cvar95' \<rparr>)"

subsection \<open>The simulation\<close>

record SimulationState =
  st_portfolioValue :: jsnum
  st_totalFees :: jsnum
  st_dailyReturns :: "jsnum list"
  st_portfolioValues :: "jsnum list"
  st_rebalanceEvents :: "RebalanceEvent list"

fun date_plus :: "date \<Rightarrow> int \<Rightarrow> date" where
  "date_plus (Date t) d = new_Date (t + d)"
| "date_plus InvalidDate d = InvalidDate"

definition simulation_step ::
  "SimulationParams \<Rightarrow> date \<Rightarrow> jsnum list \<Rightarrow> SimulationState \<Rightarrow> nat \<Rightarrow> SimulationState" where
  "simulation_step params startDate priceData st i =
     (let currentPrice = js_index priceData (int i);
          previousPrice = js_index priceData (int i - 1);
          priceChange = js_div (js_sub currentPrice previousPrice) previousPrice;
          strategyResult = applyStrategy params currentPrice priceChange (st_portfolioValue st) i priceData;
          st1 = (if sr_rebalance strategyResult
                 then let rebalanceResult =
                            executeRebalance (st_portfolioValue st) (sr_newDistribution strategyResult)
                              currentPrice (pair params)
                      in st\<lparr> st_portfolioValue := ro_newValue rebalanceResult,
                             st_totalFees := js_add (st_totalFees st) (ro_fees rebalanceResult),
                             st_rebalanceEvents := st_rebalanceEvents st @
                               [\<lparr> ev_timestamp = date_plus startDate (int i * day_ms),
                                  ev_action = Rebalance,
                                  ev_amount = ro_amount rebalanceResult,
                                  ev_price = currentPrice,
                                  ev_reason = sr_reason strategyResult \<rparr>] \<rparr>
                 else st\<lparr> st_portfolioValue :=
                            js_mul (st_portfolioValue st)
                              (js_add (Num 1) (js_mul priceChange (getLiquidityExposure params))) \<rparr>);
          previousValue = js_index (st_portfolioValues st1) (int (length (st_portfolioValues st1)) - 1);
          dailyReturn = js_div (js_sub (st_portfolioValue st1) previousValue) previousValue
      in st1\<lparr> st_dailyReturns := st_dailyReturns st1 @ [dailyReturn],
              st_portfolioValues := st_portfolioValues st1 @ [st_portfolioValue st1] \<rparr>)"

text \<open>
  \<^verbatim>\<open>runSimulation\<close>, with the clock \<open>now\<close> of \<^verbatim>\<open>new Date()\<close> and the random draws as
  parameters. The body is wrapped in \<^verbatim>\<open>try\<close>/\<^verbatim>\<open>catch\<close>, and no statement of it throws.
  The duration is a number of days that need not be whole.
\<close>

definition simulate_prices :: "SimulationParams \<Rightarrow> date \<Rightarrow> jsnum list \<Rightarrow> SimulationResult" where
  "simulate_prices params startDate priceData =
     (let startValue = initialCapital params;
          st0 = \<lparr> st_portfolioValue = startValue, st_totalFees = Num 0, st_dailyReturns = [],
                  st_portfolioValues = [startValue], st_rebalanceEvents = [] \<rparr>;
          st = foldl (simulation_step params startDate priceData) st0 [1 ..< length priceData];
          finalValue' = js_index (st_portfolioValues st) (int (length (st_portfolioValues st)) - 1);
          totalReturn' = js_div (js_sub finalValue' startValue) startValue;
          annualizedReturn' =
            js_sub (js_pow (js_add (Num 1) totalReturn') (js_div (Num 365) (Num (duration params))))
                   (Num 1);
          netReturn' = js_sub totalReturn' (js_div (st_totalFees st) startValue);
          maxDrawdown' = calculateMaxDrawdown (st_portfolioValues st);
          sharpeRatio' = calculateSharpeRatio (st_dailyReturns st);
          winRate' = js_div (Num (of_nat (length (filter (\<lambda>r. js_gt r (Num 0)) (st_dailyReturns st)))))
                           (Num (of_nat (length (st_dailyReturns st))));
          metrics' = calculateAdvancedMetrics (st_dailyReturns st) (st_portfolioValues st)
      in \<lparr> finalValue = finalValue', totalReturn = totalReturn', annualizedReturn = annualizedReturn',
           maxDrawdown = maxDrawdown', sharpeRatio = sharpeRatio', winRate = winRate',
           totalFees = st_totalFees st, netReturn = netReturn',
           dailyReturns = st_dailyReturns st, portfolioValues = st_portfolioValues st,
           rebalanceEvents = st_rebalanceEvents st, metrics = metrics' \<rparr>)"

definition runSimulation ::
  "int \<Rightarrow> (nat \<Rightarrow> real) \<Rightarrow> SimulationParams \<Rightarrow> js_error + SimulationResult" where
  "runSimulation now rnd params =
     (let endDate = Date now;
          startDate = new_Date_of (of_int now - duration params * of_int day_ms);
          priceData = generatePriceData rnd startDate endDate (pair params)
      in Inr (simulate_prices params startDate priceData))"

subsection \<open>Comparison of strategies\<close>

text \<open>
  The \<open>results\<close> object is the list of its entries in the order of \<^verbatim>\<open>Object.keys\<close> (the
  insertion order, for keys such as \<^verbatim>\<open>strategy_0_passive\<close>). \<^verbatim>\<open>reduce\<close> without an
  initial value throws a \<^verbatim>\<open>TypeError\<close> on an empty array, and so does reading a field
  of a key that has no entry.
\<close>

fun reduce_keys :: "('a \<Rightarrow> 'a \<Rightarrow> js_error + 'a) \<Rightarrow> 'a \<Rightarrow> 'a list \<Rightarrow> js_error + 'a" where
  "reduce_keys f a [] = Inr a"
| "reduce_keys f a (b # bs) = (case f a b of Inl e \<Rightarrow> Inl e | Inr c \<Rightarrow> reduce_keys f c bs)"

definition js_reduce :: "('a \<Rightarrow> 'a \<Rightarrow> js_error + 'a) \<Rightarrow> 'a list \<Rightarrow> js_error + 'a" where
  "js_reduce f xs = (case xs of [] \<Rightarrow> Inl TypeError | a # bs \<Rightarrow> reduce_keys f a bs)"

definition pick ::
  "(string \<times> SimulationResult) list \<Rightarrow> (SimulationResult \<Rightarrow> jsnum) \<Rightarrow> (jsnum \<Rightarrow> jsnum \<Rightarrow> bool)
     \<Rightarrow> string \<Rightarrow> string \<Rightarrow> js_error + string" where
  "pick results field cmp a b =
     (case (map_of results a, map_of results b) of
        (Some ra, Some rb) \<Rightarrow> Inr (if cmp (field ra) (field rb) then a else b)
      | _ \<Rightarrow> Inl TypeError)"

record Comparison =
  bestStrategy :: string
  worstStrategy :: string
  riskAdjustedWinner :: string

definition compareStrategies ::
  "(string \<times> SimulationResult) list \<Rightarrow> SimulationResult option \<Rightarrow> js_error + Comparison" where
  "compareStrategies results benchmark =
     (let strategies = map fst results
      in case js_reduce (pick results totalReturn js_gt) strategies of
           Inl e \<Rightarrow> Inl e
         | Inr best \<Rightarrow>
             (case js_reduce (pick results totalReturn js_lt) strategies of
                Inl e \<Rightarrow> Inl e
              | Inr worst \<Rightarrow>
                  (case js_reduce (pick results sharpeRatio js_gt) strategies of
                     Inl e \<Rightarrow> Inl e
                   | Inr winner \<Rightarrow>
                       Inr \<lparr> bestStrategy = best, worstStrategy = worst,
                             riskAdjustedWinner = winner \<rparr>)))"

section \<open>Predicates and inputs used in the statements\<close>

text \<open>
  A well-formed bin, as the data model and the generators have it: the identifier is an
  integer of 32 bits and the two weights are integers that are not negative. A
  well-formed distribution has such bins and a total weight of at most 10000. On these
  the sums, the products and the mean of \<open>getDistributionMetrics\<close> are exact in the
  arithmetic of the machine as well, so the exact reals of the model compute what the
  code computes up to the division by the standard deviation.
\<close>

definition wf_bin :: "Distribution \<Rightarrow> bool" where
  "wf_bin d = (case (binRelativeId d, bpsX d, bpsY d) of
                 (Num i, Num x, Num y) \<Rightarrow>
                   is_int i \<and> \<bar>i\<bar> \<le> 2147483648 \<and> is_int x \<and> is_int y \<and> 0 \<le> x \<and> 0 \<le> y
               | _ \<Rightarrow> False)"

definition bin_id :: "Distribution \<Rightarrow> real" where
  "bin_id d = (case binRelativeId d of Num i \<Rightarrow> i | _ \<Rightarrow> 0)"

definition bin_weight :: "Distribution \<Rightarrow> real" where
  "bin_weight d = (case (bpsX d, bpsY d) of (Num x, Num y) \<Rightarrow> x + y | _ \<Rightarrow> 0)"

definition wf_distribution :: "Distribution list \<Rightarrow> bool" where
  "wf_distribution ds = (list_all wf_bin ds \<and> sum_list (map bin_weight ds) \<le> 10000)"

text \<open>
  The weighted variance of the identifiers is zero: all the weight lies on one identifier,
  or there is no weight at all. This is said of the distribution, not of what the code
  computes from it.
\<close>

definition zero_weighted_variance :: "Distribution list \<Rightarrow> bool" where
  "zero_weighted_variance ds =
     list_all (\<lambda>a. list_all (\<lambda>b. 0 < bin_weight a \<and> 0 < bin_weight b \<longrightarrow> bin_id a = bin_id b) ds) ds"

definition center_bin :: Distribution where
  "center_bin = \<lparr> binRelativeId = Num 0, bpsX = Num 10000, bpsY = Num 0 \<rparr>"

definition empty_bin :: "real \<Rightarrow> Distribution" where
  "empty_bin i = \<lparr> binRelativeId = Num i, bpsX = Num 0, bpsY = Num 0 \<rparr>"

text \<open>A service with one active stop-loss order, and what a pass observes for it.\<close>

definition stop_order_1 :: StopLossOrder where
  "stop_order_1 =
     \<lparr> sl_id = ''sl1'', sl_position = ''position1'', sl_triggerPrice = Num 2, sl_amount = Num 10,
       sl_status = SL_Active, sl_createdAt = 0, sl_triggeredAt = None \<rparr>"

definition stop_service_1 :: LimitOrderService where
  "stop_service_1 = empty_service\<lparr> stopLossOrders := [(''sl1'', stop_order_1)] \<rparr>"

definition position_1 :: PositionData where
  "position_1 = \<lparr> pd_position = ''position1'', pd_totalValueUSD = Num 500 \<rparr>"

definition stop_obs_1 :: TriggerObservations where
  "stop_obs_1 = \<lparr> to_positions = (\<lambda>_. Inr [position_1]), to_now = (\<lambda>_. 1000) \<rparr>"

text \<open>
  The order book covers the pending orders: for every pending order, the entries of its
  pair that carry its price, amount and side are at least as many as the pending orders
  of that pair with that price, amount and side. This holds of the empty service and is
  kept by \<open>createLimitOrder\<close>, \<open>cancelLimitOrder\<close> and \<open>checkOrderFills\<close>.
\<close>

definition has_key :: "string \<Rightarrow> jsnum \<Rightarrow> jsnum \<Rightarrow> side \<Rightarrow> LimitOrder \<Rightarrow> bool" where
  "has_key pr p a sd order =
     (lo_pair order = pr \<and> lo_price order = p \<and> lo_amount order = a \<and> lo_side order = sd)"

definition pending_count ::
  "string \<Rightarrow> jsnum \<Rightarrow> jsnum \<Rightarrow> side \<Rightarrow> (string \<times> LimitOrder) list \<Rightarrow> nat" where
  "pending_count pr p a sd os =
     length (filter (\<lambda>ko. lo_status (snd ko) = Pending \<and> has_key pr p a sd (snd ko)) os)"

definition entry_count :: "jsnum \<Rightarrow> jsnum \<Rightarrow> side \<Rightarrow> OrderBookEntry list \<Rightarrow> nat" where
  "entry_count p a sd es =
     length (filter (\<lambda>e. ob_price e = p \<and> ob_amount e = a \<and> ob_side e = sd) es)"

definition covered :: "LimitOrderService \<Rightarrow> LimitOrder \<Rightarrow> bool" where
  "covered s order =
     (pending_count (lo_pair order) (lo_price order) (lo_amount order) (lo_side order) (orders s)
        \<le> entry_count (lo_price order) (lo_amount order) (lo_side order)
             (book_entries s (lo_pair order)))"

definition book_covers :: "LimitOrderService \<Rightarrow> bool" where
  "book_covers s = (\<forall>ko \<in> set (orders s). lo_status (snd ko) = Pending \<longrightarrow> covered s (snd ko))"

text \<open>
  The orders of one pass that were pending with the given pair, price, amount and side
  and are expired afterwards.
\<close>

definition expired_count ::
  "string \<Rightarrow> jsnum \<Rightarrow> jsnum \<Rightarrow> side \<Rightarrow> (string \<times> LimitOrder) list
     \<Rightarrow> (string \<times> LimitOrder) list \<Rightarrow> nat" where
  "expired_count pr p a sd os os' =
     length (filter (\<lambda>(ko, ko'). lo_status (snd ko) = Pending \<and> has_key pr p a sd (snd ko)
                                  \<and> lo_status (snd ko') = Expired) (zip os os'))"

text \<open>
  A service with three pending orders on one pair (a buy and a sell at the limit price
  100, and a sell at 90 that expires at the time 500), and a pass that observes the
  price 100 at the time 1000.
\<close>

definition limit_buy_1 :: LimitOrder where
  "limit_buy_1 =
     \<lparr> lo_id = ''b1'', lo_pair = ''SOL/USDC'', lo_side = Buy, lo_amount = Num 5,
       lo_price = Num 100, lo_binId = Num 0, lo_status = Pending, lo_createdAt = 0,
       lo_expiresAt = None, lo_filledAt = None, lo_filledAmount = None, lo_filledPrice = None \<rparr>"

definition limit_sell_1 :: LimitOrder where
  "limit_sell_1 = limit_buy_1\<lparr> lo_id := ''s1'', lo_side := Sell \<rparr>"

definition limit_expiring_1 :: LimitOrder where
  "limit_expiring_1 =
     limit_buy_1\<lparr> lo_id := ''x1'', lo_side := Sell, lo_amount := Num 7, lo_price := Num 90,
                  lo_binId := Num (- 11), lo_expiresAt := Some (Date 500) \<rparr>"

definition fill_service_1 :: LimitOrderService where
  "fill_service_1 =
     \<lparr> orders = [(''b1'', limit_buy_1), (''s1'', limit_sell_1), (''x1'', limit_expiring_1)],
       stopLossOrders = [],
       orderBook = [(''SOL/USDC'', [entry_of limit_buy_1, entry_of limit_sell_1,
                                    entry_of limit_expiring_1])] \<rparr>"

definition fill_obs_1 :: FillObservations where
  "fill_obs_1 = \<lparr> fo_price = (\<lambda>_. Inr (Num 100)), fo_now = (\<lambda>_. 1000), fo_fill_time = (\<lambda>_. 1001) \<rparr>"

text \<open>
  A second service and pass, again at the price 100 and the time 1000: a buy at the limit
  100, a sell at the limit 100 whose expiry time 2000 is still to come, a sell at 90 whose
  expiry time 500 has passed, a buy at 95, and a last order for which the market data
  cannot be had, so that the pass ends in that error.
\<close>

definition limit_sell_2 :: LimitOrder where
  "limit_sell_2 = limit_sell_1\<lparr> lo_id := ''s2'', lo_expiresAt := Some (Date 2000) \<rparr>"

definition limit_buy_low :: LimitOrder where
  "limit_buy_low = limit_buy_1\<lparr> lo_id := ''n1'', lo_price := Num 95, lo_binId := Num (- 5) \<rparr>"

definition limit_unpriced :: LimitOrder where
  "limit_unpriced = limit_buy_1\<lparr> lo_id := ''e1'', lo_pair := ''none'' \<rparr>"

definition fill_service_2 :: LimitOrderService where
  "fill_service_2 =
     \<lparr> orders = [(''b1'', limit_buy_1), (''s2'', limit_sell_2), (''x1'', limit_expiring_1),
                 (''n1'', limit_buy_low), (''e1'', limit_unpriced)],
       stopLossOrders = [],
       orderBook = [(''SOL/USDC'', [entry_of limit_buy_1, entry_of limit_sell_2,
                                    entry_of limit_expiring_1, entry_of limit_buy_low]),
                    (''none'', [entry_of limit_unpriced])] \<rparr>"

definition fill_obs_2 :: FillObservations where
  "fill_obs_2 =
     \<lparr> fo_price = (\<lambda>orderId. if orderId = ''e1'' then Inl (SarosError ''Invalid public key input'')
                                else Inr (Num 100)),
       fo_now = (\<lambda>_. 1000), fo_fill_time = (\<lambda>_. 1001) \<rparr>"

text \<open>
  Inputs of the simulator: a run of one day, a passive run of thirty days, a run of a day and
  a half, the random draws
  that leave the price where it is (\<open>(0.495 - 0.5) * 0.02 + 0.0001 = 0\<close>), and a clock.
\<close>

definition one_day_params :: SimulationParams where
  "one_day_params =
     \<lparr> initialCapital = Num 10000, strategy = Passive, duration = 1,
       rebalanceFrequency = Num 24, riskTolerance = Medium, pair = ''SOL/USDC'' \<rparr>"

definition passive_params_30 :: SimulationParams where
  "passive_params_30 = one_day_params\<lparr> duration := 30 \<rparr>"


definition flat_draws :: "nat \<Rightarrow> real" where
  "flat_draws i = 495 / 1000"

definition clock_1 :: int where
  "clock_1 = 1700000000000"

text \<open>Results to compare: only the total return and the Sharpe ratio differ.\<close>

definition result_with :: "jsnum \<Rightarrow> jsnum \<Rightarrow> SimulationResult" where
  "result_with total_return sharpe =
     \<lparr> finalValue = Num 0, totalReturn = total_return, annualizedReturn = Num 0, maxDrawdown = Num 0,
       sharpeRatio = sharpe, winRate = Num 0, totalFees = Num 0, netReturn = Num 0,
       dailyReturns = [], portfolioValues = [], rebalanceEvents = [],
       metrics = \<lparr> volatility = Num 0, calmarRatio = Num 0, sortinoRatio = Num 0,
                   var95 = Num 0, cvar95 = Num 0 \<rparr> \<rparr>"

text \<open>
  The daily return of the passive strategy while the price stands still: the fee of
  0.3 percent on the days of a rebalance, nothing on the others.
\<close>

definition weekly_return :: "nat \<Rightarrow> jsnum" where
  "weekly_return i = (if i mod 7 = 0 then Num (- 3 / 1000) else Num 0)"

text \<open>
  The key \<open>k\<close> wins the comparison \<open>cmp\<close> on a field among the results: no entry before
  it wins against it, and it wins against every entry after it.
\<close>

definition wins_last ::
  "(SimulationResult \<Rightarrow> jsnum) \<Rightarrow> (jsnum \<Rightarrow> jsnum \<Rightarrow> bool) \<Rightarrow> (string \<times> SimulationResult) list
     \<Rightarrow> string \<Rightarrow> bool" where
  "wins_last field cmp results k =
     (\<exists>before r after. results = before @ (k, r) # after
        \<and> (\<forall>e \<in> set before. \<not> cmp (field (snd e)) (field r))
        \<and> (\<forall>e \<in> set after. cmp (field r) (field (snd e))))"

definition comparable :: "(string \<times> SimulationResult) list \<Rightarrow> bool" where
  "comparable results =
     (results \<noteq> [] \<and> distinct (map fst results)
      \<and> (\<forall>e \<in> set results. totalReturn (snd e) \<noteq> NaN \<and> sharpeRatio (snd e) \<noteq> NaN))"

definition tied_results :: "(string \<times> SimulationResult) list" where
  "tied_results = [(''A'', result_with (Num (1 / 10)) (Num 1)), (''B'', result_with (Num (1 / 10)) (Num 1))]"

definition example_results :: "(string \<times> SimulationResult) list" where
  "example_results = [(''A'', result_with (Num (10 / 100)) (Num 1)),
                      (''B'', result_with (Num (25 / 100)) (Num 2))]"

section \<open>Sums of the generated distributions\<close>

lemma bin_weights:
  "bpsX (plain_bin per i) = (if i < 0 then Num (of_int per) else Num 0)"
  "bpsY (plain_bin per i) = (if i > 0 then Num (of_int per) else Num 0)"
  "bpsX (spread_bin per shift i) = (if i < 0 then Num (of_int per) else Num 0)"
  "bpsY (spread_bin per shift i) = (if i > 0 then Num (of_int per) else Num 0)"
  "binRelativeId (plain_bin per i) = Num (of_int i)"
  by (simp_all add: plain_bin_def spread_bin_def)

lemma foldl_weights:
  assumes "\<And>i. bpsX (f i) = (if i < 0 then Num (of_int per) else Num 0)"
      and "\<And>i. bpsY (f i) = (if (i::int) > 0 then Num (of_int per) else Num 0)"
  shows "foldl (\<lambda>sum d. js_add (js_add sum (bpsX d)) (bpsY d)) (Num s) (map f ks)
           = Num (s + of_int per * of_nat (length (filter (\<lambda>i. i \<noteq> 0) ks)))"
  by (induction ks arbitrary: s) (auto simp: assms algebra_simps)

lemma foldl_add_to_center:
  "0 \<in> set ks \<Longrightarrow>
   foldl (\<lambda>sum d. js_add (js_add sum (bpsX d)) (bpsY d)) (Num s)
         (add_to_center (Num x) (Num y) (map (plain_bin per) ks))
     = Num (s + of_int per * of_nat (length (filter (\<lambda>i. i \<noteq> 0) ks)) + x + y)"
proof (induction ks arbitrary: s)
  case Nil
  then show ?case by simp
next
  case (Cons k ks)
  show ?case
  proof (cases "k = 0")
    case True
    then show ?thesis
      using foldl_weights [of "plain_bin per" per "s + x + y" ks]
      by (simp add: bin_weights js_eq_def algebra_simps)
  next
    case False
    with Cons.prems have "0 \<in> set ks" by simp
    from Cons.IH [OF this] False show ?thesis
      by (simp add: bin_weights js_eq_def algebra_simps)
  qed
qed

lemma nonzero_upto: "0 \<le> h \<Longrightarrow> length (filter (\<lambda>i. i \<noteq> 0) [- h .. h]) = nat (2 * h)"
proof -
  assume h: "0 \<le> h"
  have split: "[- h .. h] = [- h .. - 1] @ 0 # [1 .. h]"
    using h upto_split2 [of "- h" "- 1" h] upto_rec1 [of 0 h] by (cases "h = 0") auto
  have l: "filter (\<lambda>i. i \<noteq> 0) [- h .. - 1] = [- h .. - 1]"
    by (rule filter_True) auto
  have r: "filter (\<lambda>i. i \<noteq> 0) [1 .. h] = [1 .. h]"
    by (rule filter_True) auto
  show ?thesis using h by (simp add: split l r)
qed

lemma totalBps_plain_bins:
  "0 \<le> half \<Longrightarrow> totalBps (plain_bins half per) = Num (of_int (2 * half * per))"
  using foldl_weights [of "plain_bin per" per 0 "[- half .. half]"]
  by (simp add: totalBps_def plain_bins_def bin_weights nonzero_upto algebra_simps)

lemma totalBps_spread_bins:
  "0 \<le> half \<Longrightarrow> totalBps (spread_bins half per shift) = Num (of_int (2 * half * per))"
  using foldl_weights [of "spread_bin per shift" per 0 "[- half .. half]"]
  by (simp add: totalBps_def spread_bins_def bin_weights nonzero_upto algebra_simps)

text \<open>
  The centred generator adds the leftover of \<open>per * w\<close> to the centre bin, which the loop
  left empty: the sum misses \<open>per\<close> when the width is odd.
\<close>

lemma totalBps_makeCenteredDistribution:
  "totalBps (makeCenteredDistribution width) =
     Num (of_int (10000 - (10000 div max 1 (to_int32 width)) * (max 1 (to_int32 width) mod 2)))"
proof -
  define w where "w = max 1 (to_int32 width)"
  have w: "1 \<le> w" by (simp add: w_def)
  then have h: "0 \<le> w div 2" by simp
  then have mem: "0 \<in> set [- (w div 2) .. w div 2]" by simp
  have "2 * (w div 2) = w - w mod 2" by presburger
  then have "(10000 div w) * (2 * (w div 2)) = (10000 div w) * (w - w mod 2)" by simp
  then have e: "(10000 div w) * (2 * (w div 2)) + (10000 - 10000 div w * w)
                  = 10000 - (10000 div w) * (w mod 2)"
    by (simp add: algebra_simps)
  have "totalBps (makeCenteredDistribution width) =
          Num (of_int (10000 div w) * of_nat (nat (2 * (w div 2)))
               + of_int ((10000 - 10000 div w * w) div 2)
               + of_int (10000 - 10000 div w * w - (10000 - 10000 div w * w) div 2))"
    unfolding makeCenteredDistribution_def totalBps_def plain_bins_def Let_def w_def [symmetric]
    by (simp only: foldl_add_to_center [OF mem] nonzero_upto [OF h]) simp
  also have "\<dots> = Num (of_int ((10000 div w) * (2 * (w div 2)) + (10000 - 10000 div w * w)))"
    using h by simp
  also have "\<dots> = Num (of_int (10000 - (10000 div w) * (w mod 2)))"
    by (simp only: e)
  finally show ?thesis by (simp only: w_def)
qed

lemma validate_makeCenteredDistribution:
  "validateDistribution (makeCenteredDistribution width)
     \<longleftrightarrow> even (max 1 (to_int32 width)) \<or> 10000 < max 1 (to_int32 width)"
proof -
  define w where "w = max 1 (to_int32 width)"
  have w: "1 \<le> w" by (simp add: w_def)
  have "(10000 div w) * (w mod 2) = 0 \<longleftrightarrow> even w \<or> 10000 < w"
    using w pos_imp_zdiv_pos_iff [of w 10000] by (auto simp: odd_iff_mod_2_eq_one)
  then show ?thesis
    unfolding validateDistribution_def totalBps_makeCenteredDistribution w_def [symmetric] js_eq_def
    by simp
qed

text \<open>The single-sided generators give the leftover to a bin that has its share.\<close>

lemma foldl_const_X:
  "foldl (\<lambda>sum d. js_add (js_add sum (bpsX d)) (bpsY d)) (Num s)
         (map (\<lambda>i. \<lparr> binRelativeId = f i, bpsX = Num p, bpsY = Num 0 \<rparr>) ks)
     = Num (s + p * of_nat (length ks))"
  by (induction ks arbitrary: s) (auto simp: algebra_simps)

lemma foldl_const_Y:
  "foldl (\<lambda>sum d. js_add (js_add sum (bpsX d)) (bpsY d)) (Num s)
         (map (\<lambda>i. \<lparr> binRelativeId = f i, bpsX = Num 0, bpsY = Num p \<rparr>) ks)
     = Num (s + p * of_nat (length ks))"
  by (induction ks arbitrary: s) (auto simp: algebra_simps)

lemma single_sided_arith:
  assumes "1 \<le> (width::int)"
  shows "real_of_int (10000 div width) + real_of_int (10000 - 10000 div width * width)
           + real_of_int (10000 div width) * real (nat width - Suc 0) = 10000"
proof -
  have "real (nat width - Suc 0) = real_of_int (width - 1)"
    using assms by (simp add: of_nat_diff)
  then show ?thesis by (simp add: algebra_simps)
qed

lemma validate_makeSingleSidedX:
  assumes "1 \<le> width" "width \<le> 4294967295"
  shows "\<exists>d. makeSingleSidedX width = Inr d \<and> validateDistribution d"
proof -
  from assms have u: "[0 ..< nat width] = 0 # [Suc 0 ..< nat width]"
    by (simp add: upt_conv_Cons)
  show ?thesis
    using assms single_sided_arith [OF assms(1)]
    by (simp add: makeSingleSidedX_def Let_def u validateDistribution_def totalBps_def
          foldl_const_X js_eq_def)
qed

lemma validate_makeSingleSidedY:
  assumes "1 \<le> width" "width \<le> 4294967295"
  shows "\<exists>d. makeSingleSidedY width = Inr d \<and> validateDistribution d"
proof -
  from assms have u: "[0 ..< nat width] = 0 # [Suc 0 ..< nat width]"
    by (simp add: upt_conv_Cons)
  show ?thesis
    using assms single_sided_arith [OF assms(1)]
    by (simp add: makeSingleSidedY_def Let_def u validateDistribution_def totalBps_def
          foldl_const_Y js_eq_def)
qed

text \<open>The other generators have no step for the leftover or for the centre bin.\<close>

lemma totalBps_makeMomentumDistribution:
  "totalBps (makeMomentumDistribution width momentum) =
     Num (of_int (2 * (max 1 (to_int32 width) div 2) * (10000 div max 1 (to_int32 width))))"
  by (simp add: makeMomentumDistribution_def Let_def totalBps_spread_bins)

lemma totalBps_makeMeanReversionDistribution:
  "totalBps (makeMeanReversionDistribution width deviation) =
     Num (of_int (2 * (max 1 (to_int32 width) div 2) * (10000 div max 1 (to_int32 width))))"
  by (simp add: makeMeanReversionDistribution_def Let_def totalBps_spread_bins)

lemma totalBps_makeConservativeDistribution:
  "totalBps (makeConservativeDistribution width) =
     Num (of_int (2 * (max 1 (min width 5) div 2) * (10000 div max 1 (min width 5))))"
  by (simp add: makeConservativeDistribution_def Let_def totalBps_plain_bins)

lemma totalBps_makeAggressiveDistribution:
  "totalBps (makeAggressiveDistribution width) =
     Num (of_int (2 * (max 1 (min width 15) div 2) * (10000 div max 1 (min width 15))))"
  by (simp add: makeAggressiveDistribution_def Let_def totalBps_plain_bins)

text \<open>
  Claim C1. Every generator but the volatility-adjusted one is claimed to return, for every
  width of at least one, a distribution whose weights sum to 10000. At the width 7 (the
  width the rebalance form starts with) the centred generator returns a sum of 8572, the
  momentum, mean-reversion and aggressive generators a sum of 8568 and the conservative
  generator a sum of 8000; none of the five passes \<open>validateDistribution\<close>.
\<close>

theorem generators_width_7_invalid:
  "totalBps (makeCenteredDistribution 7) = Num 8572
   \<and> \<not> validateDistribution (makeCenteredDistribution 7)
   \<and> totalBps (makeMomentumDistribution 7 (Num (5 / 100))) = Num 8568
   \<and> \<not> validateDistribution (makeMomentumDistribution 7 (Num (5 / 100)))
   \<and> totalBps (makeMeanReversionDistribution 7 (Num (3 / 100))) = Num 8568
   \<and> \<not> validateDistribution (makeMeanReversionDistribution 7 (Num (3 / 100)))
   \<and> totalBps (makeConservativeDistribution 7) = Num 8000
   \<and> \<not> validateDistribution (makeConservativeDistribution 7)
   \<and> totalBps (makeAggressiveDistribution 7) = Num 8568
   \<and> \<not> validateDistribution (makeAggressiveDistribution 7)"
  by (simp add: validateDistribution_def totalBps_makeCenteredDistribution
        totalBps_makeMomentumDistribution totalBps_makeMeanReversionDistribution
        totalBps_makeConservativeDistribution totalBps_makeAggressiveDistribution
        to_int32_def js_eq_def)

section \<open>Skewness of a distribution without variance\<close>

lemma foldl_add_NaN_acc: "foldl (\<lambda>sum d. js_add sum (t d)) NaN ds = NaN"
  by (induction ds) auto

lemma foldl_add_all_NaN:
  "ds \<noteq> [] \<Longrightarrow> \<forall>d \<in> set ds. t d = NaN \<Longrightarrow> foldl (\<lambda>sum d. js_add sum (t d)) a ds = NaN"
  by (cases ds; cases a) (auto simp: foldl_add_NaN_acc)

lemma js_add_NaN_right [simp]: "js_add a NaN = NaN"
  by (cases a) auto

lemma foldl_add_nonneg:
  "\<forall>d \<in> set ds. \<exists>r. t d = Num r \<and> 0 \<le> r \<Longrightarrow>
   \<exists>r. foldl (\<lambda>sum d. js_add sum (t d)) (Num a) ds = Num (a + r) \<and> 0 \<le> r
       \<and> (r = 0 \<longrightarrow> (\<forall>d \<in> set ds. t d = Num 0))"
proof (induction ds arbitrary: a)
  case Nil
  then show ?case by simp
next
  case (Cons d ds)
  then obtain r where r: "t d = Num r" "0 \<le> r" by auto
  from Cons.prems have "\<forall>d \<in> set ds. \<exists>r. t d = Num r \<and> 0 \<le> r" by simp
  from Cons.IH [OF this, of "a + r"] obtain q where
    q: "foldl (\<lambda>sum d. js_add sum (t d)) (Num (a + r)) ds = Num (a + r + q)" "0 \<le> q"
       "q = 0 \<longrightarrow> (\<forall>d \<in> set ds. t d = Num 0)" by blast
  show ?case
  proof (intro exI conjI)
    show "foldl (\<lambda>sum d. js_add sum (t d)) (Num a) (d # ds) = Num (a + (r + q))"
      using r q by (simp add: add.assoc)
    show "0 \<le> r + q" using r q by simp
    show "r + q = 0 \<longrightarrow> (\<forall>d \<in> set (d # ds). t d = Num 0)"
      using r q by auto
  qed
qed

text \<open>A sum of terms that are \<open>NaN\<close> or \<open>+Infinity\<close> is never a finite number.\<close>

lemma foldl_add_not_finite:
  "ds \<noteq> [] \<Longrightarrow> \<forall>d \<in> set ds. t d = NaN \<or> t d = PInf \<Longrightarrow> a \<noteq> NInf \<Longrightarrow>
   \<not> is_finite (foldl (\<lambda>sum d. js_add sum (t d)) a ds)"
proof (induction ds arbitrary: a)
  case Nil
  then show ?case by simp
next
  case (Cons d ds)
  have step: "js_add a (t d) = NaN \<or> js_add a (t d) = PInf"
    using Cons.prems by (cases a) auto
  show ?case
  proof (cases "ds = []")
    case True
    with step show ?thesis by auto
  next
    case False
    from Cons.IH [OF False, of "js_add a (t d)"] Cons.prems step show ?thesis by auto
  qed
qed

lemma is_int_numeral: "is_int 2" "is_int 3" "is_odd_int 3" "\<not> is_odd_int 2"
  by (simp_all add: is_odd_int_def is_int_def)

lemma js_pow_2:
  "js_pow (Num z) (Num 2) = Num (z ^ 2)"
  "js_pow PInf (Num 2) = PInf" "js_pow NInf (Num 2) = PInf" "js_pow NaN (Num 2) = NaN"
  by (simp_all add: is_int_numeral)

lemma js_pow_3:
  "js_pow (Num z) (Num 3) = Num (z ^ 3)"
  "js_pow PInf (Num 3) = PInf" "js_pow NInf (Num 3) = NInf" "js_pow NaN (Num 3) = NaN"
  by (simp_all add: is_int_numeral)

lemma variance_term_finite:
  assumes "wf_bin d"
  shows "\<exists>i x y. binRelativeId d = Num i \<and> bpsX d = Num x \<and> bpsY d = Num y
            \<and> 0 \<le> x \<and> 0 \<le> y
            \<and> variance_term (Num m) d = Num ((i - m) ^ 2 * ((x + y) / 10000))"
  using assms
  by (cases "binRelativeId d"; cases "bpsX d"; cases "bpsY d")
     (auto simp: wf_bin_def bin_total_def js_sub_def variance_term_def js_pow_2 simp del: js_pow.simps)

lemma variance_term_not_finite:
  assumes "wf_bin d" "\<not> is_finite mean"
  shows "variance_term mean d = NaN \<or> variance_term mean d = PInf"
  using assms
  by (cases mean; cases "binRelativeId d"; cases "bpsX d"; cases "bpsY d")
     (auto simp: wf_bin_def bin_total_def js_sub_def inf_of_sign_def variance_term_def js_pow_2
           simp del: js_pow.simps)

lemma skewness_term_NaN:
  assumes "binRelativeId d = Num i" "bpsX d = Num x" "bpsY d = Num y"
      "(i - m) ^ 2 * ((x + y) / 10000) = 0"
  shows "skewness_term (Num m) (Num 0) d = NaN"
proof (cases "i = m")
  case True
  then show ?thesis using assms
    by (simp add: js_sub_def inf_of_sign_def skewness_term_def js_pow_3 del: js_pow.simps)
next
  case False
  with assms have "x + y = 0" by simp
  with False show ?thesis using assms
    by (simp add: js_sub_def inf_of_sign_def bin_total_def skewness_term_def js_pow_3
          del: js_pow.simps)
qed

text \<open>
  When the variance that the code computes is zero, every term of the skewness is
  \<open>NaN\<close>: the quotient \<^verbatim>\<open>0/0\<close> on a bin that has weight, and infinity times zero on
  a bin that has none.
\<close>

lemma skewness_of_computed_variance:
  assumes ne: "distribution \<noteq> []"
      and wf: "\<forall>d \<in> set distribution. wf_bin d"
      and var: "dist_variance distribution = Num 0"
  shows "dm_skewness (getDistributionMetrics distribution) = NaN"
proof -
  let ?mean = "dist_mean distribution"
  have v: "foldl (\<lambda>sum d. js_add sum (variance_term ?mean d)) (Num 0) distribution = Num 0"
    using var by (simp add: dist_variance_def Let_def)
  have finite_mean: "is_finite ?mean"
  proof (rule ccontr)
    assume nf: "\<not> is_finite ?mean"
    have "\<forall>d \<in> set distribution. variance_term ?mean d = NaN \<or> variance_term ?mean d = PInf"
      using wf variance_term_not_finite [OF _ nf] by blast
    from foldl_add_not_finite [OF ne this, of "Num 0"] v show False by simp
  qed
  then obtain m where m: "?mean = Num m"
    by (cases ?mean) auto
  have terms: "\<forall>d \<in> set distribution. \<exists>r. variance_term (Num m) d = Num r \<and> 0 \<le> r"
  proof
    fix d assume "d \<in> set distribution"
    with wf have "wf_bin d" by blast
    from variance_term_finite [OF this, of m]
    show "\<exists>r. variance_term (Num m) d = Num r \<and> 0 \<le> r" by auto
  qed
  from foldl_add_nonneg [OF terms, of 0] v m
  have zero: "\<forall>d \<in> set distribution. variance_term (Num m) d = Num 0" by auto
  have "\<forall>d \<in> set distribution. skewness_term (Num m) (Num 0) d = NaN"
  proof
    fix d assume d: "d \<in> set distribution"
    with wf have "wf_bin d" by blast
    from variance_term_finite [OF this, of m] zero d
    obtain i x y where "binRelativeId d = Num i" "bpsX d = Num x" "bpsY d = Num y"
        "(i - m) ^ 2 * ((x + y) / 10000) = 0"
      by auto
    then show "skewness_term (Num m) (Num 0) d = NaN"
      by (rule skewness_term_NaN)
  qed
  from foldl_add_all_NaN [OF ne this, of "Num 0"]
  show ?thesis
    by (simp add: getDistributionMetrics_def dist_skewness_def Let_def m var)
qed

text \<open>The sums that the code folds, on well-formed bins.\<close>

lemma wf_bin_fields:
  assumes "wf_bin d"
  shows "binRelativeId d = Num (bin_id d) \<and> bin_total d = Num (bin_weight d)
         \<and> 0 \<le> bin_weight d
         \<and> js_add (js_add (Num a) (bpsX d)) (bpsY d) = Num (a + bin_weight d)"
  using assms
  by (cases "binRelativeId d"; cases "bpsX d"; cases "bpsY d")
     (auto simp: wf_bin_def bin_id_def bin_weight_def bin_total_def)

lemma totalBps_wf:
  "\<forall>d \<in> set ds. wf_bin d \<Longrightarrow>
   foldl (\<lambda>sum d. js_add (js_add sum (bpsX d)) (bpsY d)) (Num a) ds
     = Num (a + sum_list (map bin_weight ds))"
proof (induction ds arbitrary: a)
  case Nil
  then show ?case by simp
next
  case (Cons d ds)
  from Cons.prems have "wf_bin d" by simp
  from wf_bin_fields [OF this, of a] Cons.IH [of "a + bin_weight d"] Cons.prems
  show ?case by (simp add: add.assoc)
qed

lemma weighted_ids_wf:
  "\<forall>d \<in> set ds. wf_bin d \<Longrightarrow>
   foldl (\<lambda>sum d. js_add sum (js_mul (binRelativeId d) (bin_total d))) (Num a) ds
     = Num (a + sum_list (map (\<lambda>d. bin_id d * bin_weight d) ds))"
proof (induction ds arbitrary: a)
  case Nil
  then show ?case by simp
next
  case (Cons d ds)
  from Cons.prems have "wf_bin d" by simp
  from wf_bin_fields [OF this, of a] Cons.IH [of "a + bin_id d * bin_weight d"] Cons.prems
  show ?case by (simp add: add.assoc)
qed

lemma sum_on_one_id:
  "\<forall>d \<in> set ds. bin_weight d \<noteq> 0 \<longrightarrow> bin_id d = k \<Longrightarrow>
   sum_list (map (\<lambda>d. bin_id d * bin_weight d) ds) = k * sum_list (map bin_weight ds)"
  by (induction ds) (auto simp: algebra_simps)

lemma sum_nonneg_zero:
  "\<forall>d \<in> set ds. 0 \<le> f d \<Longrightarrow> sum_list (map f ds) = (0::real) \<Longrightarrow> \<forall>d \<in> set ds. f d = 0"
proof (induction ds)
  case Nil
  then show ?case by simp
next
  case (Cons d ds)
  from Cons.prems(1) have "0 \<le> sum_list (map f ds)" by (intro sum_list_nonneg) auto
  with Cons.prems have "f d = 0" "sum_list (map f ds) = 0" by auto
  with Cons.IH Cons.prems(1) show ?case by simp
qed

lemma foldl_add_zero_terms:
  "\<forall>d \<in> set ds. t d = Num 0 \<Longrightarrow> foldl (\<lambda>sum d. js_add sum (t d)) (Num a) ds = Num a"
  by (induction ds) auto

lemma skewness_term_NaN_mean:
  "skewness_term NaN stdDev d = NaN"
  by (cases "binRelativeId d")
     (simp_all add: skewness_term_def js_sub_def js_pow_3 del: js_pow.simps)

lemma dist_mean_wf:
  assumes "\<forall>d \<in> set ds. wf_bin d"
  shows "dist_mean ds = js_div (Num (sum_list (map (\<lambda>d. bin_id d * bin_weight d) ds)))
                               (Num (sum_list (map bin_weight ds)))"
  by (simp only: dist_mean_def totalBps_def totalBps_wf [OF assms] weighted_ids_wf [OF assms]
        add_0_left)

lemma variance_term_zero:
  assumes "wf_bin d" "bin_weight d \<noteq> 0 \<Longrightarrow> bin_id d = k"
  shows "variance_term (Num k) d = Num 0"
proof -
  from variance_term_finite [OF assms(1), of k]
  obtain i x y where f: "binRelativeId d = Num i" "bpsX d = Num x" "bpsY d = Num y"
      "variance_term (Num k) d = Num ((i - k) ^ 2 * ((x + y) / 10000))"
    by auto
  then have e: "bin_id d = i" "bin_weight d = x + y"
    by (simp_all add: bin_id_def bin_weight_def)
  show ?thesis
  proof (cases "x + y = 0")
    case True
    with f(4) show ?thesis by simp
  next
    case False
    with e assms(2) have "i = k" by simp
    with f(4) show ?thesis by simp
  qed
qed

lemma weight_nonneg:
  assumes "wf_bin d"
  shows "0 \<le> bin_weight d"
  using wf_bin_fields [OF assms, of 0] by simp

lemma skewness_of_NaN_mean:
  assumes "ds \<noteq> []" "dist_mean ds = NaN"
  shows "dist_skewness ds = NaN"
proof -
  have "dist_skewness ds = foldl (\<lambda>sum d. js_add sum NaN) (Num 0) ds"
    by (simp only: dist_skewness_def Let_def assms(2) skewness_term_NaN_mean)
  also have "\<dots> = NaN"
    by (rule foldl_add_all_NaN [OF assms(1)]) simp
  finally show ?thesis .
qed

lemma sum_list_has_term:
  "sum_list (map f ds) \<noteq> (0::real) \<Longrightarrow> \<exists>a \<in> set ds. f a \<noteq> 0"
  by (induction ds) auto

lemma sum_list_zero_terms:
  "\<forall>d \<in> set ds. f d = (0::real) \<Longrightarrow> sum_list (map (\<lambda>d. g d * f d) ds) = 0"
  by (induction ds) auto

lemma mean_without_weight:
  assumes bins: "\<forall>d \<in> set ds. wf_bin d"
      and total: "sum_list (map bin_weight ds) = 0"
  shows "dist_mean ds = NaN"
proof -
  have "\<forall>d \<in> set ds. 0 \<le> bin_weight d"
    using bins weight_nonneg by blast
  from sum_nonneg_zero [OF this total]
  have "sum_list (map (\<lambda>d. bin_id d * bin_weight d) ds) = 0"
    by (rule sum_list_zero_terms)
  then have "dist_mean ds = js_div (Num 0) (Num 0)"
    by (simp only: dist_mean_wf [OF bins] total)
  then show ?thesis
    by (simp add: inf_of_sign_def)
qed

lemma mean_on_one_id:
  assumes bins: "\<forall>d \<in> set ds. wf_bin d"
      and total: "sum_list (map bin_weight ds) \<noteq> 0"
      and one: "\<forall>d \<in> set ds. bin_weight d \<noteq> 0 \<longrightarrow> bin_id d = k"
  shows "dist_mean ds = Num k"
proof -
  have "js_div (Num (k * sum_list (map bin_weight ds))) (Num (sum_list (map bin_weight ds)))
          = Num k"
    using total by simp
  then show ?thesis
    by (simp only: dist_mean_wf [OF bins] sum_on_one_id [OF one])
qed

lemma variance_on_one_id:
  assumes bins: "\<forall>d \<in> set ds. wf_bin d"
      and total: "sum_list (map bin_weight ds) \<noteq> 0"
      and one: "\<forall>d \<in> set ds. bin_weight d \<noteq> 0 \<longrightarrow> bin_id d = k"
  shows "dist_variance ds = Num 0"
proof -
  have "\<forall>d \<in> set ds. variance_term (Num k) d = Num 0"
  proof
    fix d assume d: "d \<in> set ds"
    with bins have w: "wf_bin d" ..
    from one d have "bin_weight d \<noteq> 0 \<Longrightarrow> bin_id d = k" by blast
    with w show "variance_term (Num k) d = Num 0" by (rule variance_term_zero)
  qed
  from foldl_add_zero_terms [OF this, of 0]
  show ?thesis
    by (simp only: dist_variance_def Let_def mean_on_one_id [OF bins total one])
qed

lemma weight_on_one_id:
  assumes bins: "\<forall>d \<in> set ds. wf_bin d"
      and zero: "zero_weighted_variance ds"
      and a: "a \<in> set ds" "bin_weight a \<noteq> 0"
  shows "\<forall>d \<in> set ds. bin_weight d \<noteq> 0 \<longrightarrow> bin_id d = bin_id a"
proof (intro ballI impI)
  fix d assume d: "d \<in> set ds" "bin_weight d \<noteq> 0"
  from bins d(1) have "wf_bin d" ..
  then have "0 \<le> bin_weight d" by (rule weight_nonneg)
  with d(2) have pd: "0 < bin_weight d" by simp
  from bins a(1) have "wf_bin a" ..
  then have "0 \<le> bin_weight a" by (rule weight_nonneg)
  with a(2) have pa: "0 < bin_weight a" by simp
  from zero have "\<forall>a \<in> set ds. \<forall>b \<in> set ds.
      0 < bin_weight a \<and> 0 < bin_weight b \<longrightarrow> bin_id a = bin_id b"
    by (simp only: zero_weighted_variance_def list_all_iff)
  with d(1) a(1) pd pa show "bin_id d = bin_id a" by blast
qed

text \<open>
  Claim C8, as amended. For a well-formed distribution that is not empty and has zero
  weighted variance (for example a single bin that holds all the weight at the
  identifier 0), \<open>getDistributionMetrics\<close> returns \<open>NaN\<close> as the skewness, the value of
  \<^verbatim>\<open>0/0\<close>, and not a number such as 0; nothing is thrown.
\<close>

theorem skewness_of_zero_variance:
  assumes ne: "distribution \<noteq> []"
      and wf: "wf_distribution distribution"
      and zero: "zero_weighted_variance distribution"
  shows "dm_skewness (getDistributionMetrics distribution) = NaN"
proof -
  from wf have "list_all wf_bin distribution"
    unfolding wf_distribution_def ..
  then have bins: "\<forall>d \<in> set distribution. wf_bin d"
    unfolding list_all_iff .
  show ?thesis
  proof (cases "sum_list (map bin_weight distribution) = 0")
    case True
    from skewness_of_NaN_mean [OF ne mean_without_weight [OF bins True]] show ?thesis
      by (simp only: getDistributionMetrics_def DistributionMetrics.simps)
  next
    case False
    from sum_list_has_term [OF False]
    obtain a where a: "a \<in> set distribution" "bin_weight a \<noteq> 0" by blast
    note one = weight_on_one_id [OF bins zero a]
    from skewness_of_computed_variance [OF ne bins variance_on_one_id [OF bins False one]]
    show ?thesis .
  qed
qed

text \<open>
  The single bin at the centre that holds all the weight is such a distribution, with or
  without an empty bin beside it.
\<close>

theorem skewness_of_zero_variance_witness:
  "wf_distribution [center_bin, empty_bin 1]
   \<and> zero_weighted_variance [center_bin, empty_bin 1]
   \<and> dm_skewness (getDistributionMetrics [center_bin, empty_bin 1]) = NaN
   \<and> dm_skewness (getDistributionMetrics [center_bin]) = NaN"
proof -
  have b: "bin_weight center_bin = 10000" "bin_weight (empty_bin 1) = 0"
          "wf_bin center_bin" "wf_bin (empty_bin 1)"
    by (simp_all add: bin_weight_def wf_bin_def center_bin_def empty_bin_def is_int_def)
  then have wf2: "wf_distribution [center_bin, empty_bin 1]"
    and wf1: "wf_distribution [center_bin]"
    and z2: "zero_weighted_variance [center_bin, empty_bin 1]"
    and z1: "zero_weighted_variance [center_bin]"
    by (simp_all add: wf_distribution_def zero_weighted_variance_def)
  from skewness_of_zero_variance [OF _ wf2 z2] skewness_of_zero_variance [OF _ wf1 z1] wf2 z2
  show ?thesis by simp
qed

text \<open>
  Claim C8 as stated fails at the empty distribution: it has zero weighted variance (and
  the variance that the code computes is zero), and the skewness returned is the number
  zero.
\<close>

theorem skewness_empty_distribution:
  "zero_weighted_variance [] \<and> dist_variance [] = Num 0
   \<and> dm_skewness (getDistributionMetrics []) = Num 0"
  by (simp add: zero_weighted_variance_def dist_variance_def getDistributionMetrics_def
        dist_skewness_def)

section \<open>Stop-loss triggers\<close>

lemma triggers_loop_keys:
  "triggers_loop obs os acc = (os', r) \<Longrightarrow> map fst os' = map fst os"
  by (induction obs os acc arbitrary: os' r rule: triggers_loop.induct)
     (auto split: prod.splits sum.splits if_splits option.splits simp: Let_def)

lemma triggers_loop_acc:
  "triggers_loop obs os acc = (os', Inr tr) \<Longrightarrow> set acc \<subseteq> set tr"
  by (induction obs os acc arbitrary: os' tr rule: triggers_loop.induct)
     (auto split: prod.splits sum.splits if_splits option.splits simp: Let_def)

lemma triggers_loop_order:
  assumes "triggers_loop obs os acc = (os', Inr tr)"
      and "distinct (map fst os)" "(k, order) \<in> set os"
      and "sl_status order = SL_Active"
      and "to_positions obs k = Inr positions"
      and "find (\<lambda>p. pd_position p = sl_position order) positions = Some position"
      and "pd_totalValueUSD position = Num v" "v \<noteq> 0"
  shows "\<exists>order'. map_of os' k = Some order'
           \<and> (sl_status order' = SL_Triggered \<longleftrightarrow> js_ge (sl_triggerPrice order) (Num 1))
           \<and> (sl_status order' = SL_Triggered \<longrightarrow>
                 order' = order\<lparr> sl_status := SL_Triggered, sl_triggeredAt := Some (to_now obs k) \<rparr>
                 \<and> order' \<in> set tr)
           \<and> (sl_status order' \<noteq> SL_Triggered \<longrightarrow> order' = order)"
  using assms
proof (induction os arbitrary: acc os' tr)
  case Nil
  then show ?case by simp
next
  case (Cons a rest)
  obtain k1 o1 where a: "a = (k1, o1)" by (cases a)
  show ?case
  proof (cases "k1 = k")
    case True
    with Cons.prems a have o1: "o1 = order"
      by (auto simp: rev_image_eqI)
    have one: "js_div (Num v) (Num v) = Num 1" using \<open>v \<noteq> 0\<close> by simp
    from Cons.prems(1) Cons.prems(4-8) True a o1 one triggers_loop_keys show ?thesis
      by (auto split: prod.splits sum.splits if_splits simp: Let_def js_ge_def dest: triggers_loop_acc)
  next
    case False
    with Cons.prems a have mem: "(k, order) \<in> set rest" by auto
    from Cons.prems a have dist: "distinct (map fst rest)" by simp
    from Cons.prems(1) a False obtain rest' acc' where
      run: "triggers_loop obs rest acc' = (rest', Inr tr)" and os': "os' = (k1, snd (hd os')) # rest'"
      by (auto split: prod.splits sum.splits if_splits option.splits simp: Let_def)
    from Cons.IH [OF run dist mem Cons.prems(4-8)] False os' show ?thesis
      by (metis map_of_Cons_code(2))
  qed
qed

text \<open>
  Claim C9. In a pass of \<open>checkStopLossTriggers\<close> that completes, an active stop-loss order
  whose position is found with a total value that is a number other than zero is compared
  with the price \<open>totalValueUSD / totalValueUSD = 1\<close>: it becomes triggered exactly when
  its trigger price is at least 1, and is left as it was otherwise.
\<close>

theorem stop_loss_compares_with_one:
  assumes "checkStopLossTriggers obs s = (s', Inr triggered)"
      and "distinct (map fst (stopLossOrders s))"
      and "(k, order) \<in> set (stopLossOrders s)"
      and "sl_status order = SL_Active"
      and "to_positions obs k = Inr positions"
      and "find (\<lambda>p. pd_position p = sl_position order) positions = Some position"
      and "pd_totalValueUSD position = Num v" "v \<noteq> 0"
  shows "js_div (pd_totalValueUSD position) (pd_totalValueUSD position) = Num 1
         \<and> (\<exists>order'. map_of (stopLossOrders s') k = Some order'
               \<and> (sl_status order' = SL_Triggered \<longleftrightarrow> js_ge (sl_triggerPrice order) (Num 1))
               \<and> (sl_status order' = SL_Triggered \<longrightarrow>
                     order' = order\<lparr> sl_status := SL_Triggered, sl_triggeredAt := Some (to_now obs k) \<rparr>
                     \<and> order' \<in> set triggered)
               \<and> (sl_status order' \<noteq> SL_Triggered \<longrightarrow> order' = order))"
proof -
  from assms(1) obtain os' where
    loop: "triggers_loop obs (stopLossOrders s) [] = (os', Inr triggered)"
    and s': "stopLossOrders s' = os'"
    by (auto simp: checkStopLossTriggers_def split: prod.splits)
  from triggers_loop_order [OF loop assms(2-8)] s' assms(7,8) show ?thesis
    by simp
qed

theorem stop_loss_compares_with_one_witness:
  "\<exists>order'. map_of (stopLossOrders (fst (checkStopLossTriggers stop_obs_1 stop_service_1))) ''sl1''
              = Some order'
            \<and> sl_status order' = SL_Triggered"
proof -
  let ?o' = "stop_order_1\<lparr> sl_status := SL_Triggered, sl_triggeredAt := Some 1000 \<rparr>"
  have run: "checkStopLossTriggers stop_obs_1 stop_service_1
               = (stop_service_1\<lparr> stopLossOrders := [(''sl1'', ?o')] \<rparr>, Inr [?o'])"
    by (simp add: checkStopLossTriggers_def stop_service_1_def stop_obs_1_def stop_order_1_def
          position_1_def empty_service_def js_le_def js_eq_def Let_def)
  have "\<exists>order'. map_of (stopLossOrders (stop_service_1\<lparr> stopLossOrders := [(''sl1'', ?o')] \<rparr>)) ''sl1''
              = Some order'
            \<and> (sl_status order' = SL_Triggered \<longleftrightarrow> js_ge (sl_triggerPrice stop_order_1) (Num 1))"
    using stop_loss_compares_with_one [OF run, of "''sl1''" stop_order_1 "[position_1]" position_1 500]
    by (simp add: stop_service_1_def stop_obs_1_def stop_order_1_def position_1_def empty_service_def)
  then show ?thesis
    unfolding run by (simp add: stop_order_1_def js_ge_def js_le_def)
qed

section \<open>Fills and expiry of limit orders\<close>

lemma fills_loop_keys:
  "fills_loop obs os s acc = (os', s', r) \<Longrightarrow> map fst os' = map fst os"
  by (induction obs os s acc arbitrary: os' s' r rule: fills_loop.induct)
     (auto split: prod.splits sum.splits if_splits simp: Let_def)

lemma fills_loop_acc:
  "fills_loop obs os s acc = (os', s', Inr filled) \<Longrightarrow> set acc \<subseteq> set filled"
  by (induction obs os s acc arbitrary: os' s' filled rule: fills_loop.induct)
     (auto split: prod.splits sum.splits if_splits simp: Let_def)

text \<open>The test of the code for an expired order: the expiry time is a valid time before now.\<close>

lemma has_expired_iff:
  "has_expired obs k order \<longleftrightarrow> (\<exists>t. lo_expiresAt order = Some (Date t) \<and> t < fo_now obs k)"
proof (cases "lo_expiresAt order")
  case None
  then show ?thesis by (simp add: has_expired_def)
next
  case (Some d)
  then show ?thesis by (cases d) (simp_all add: has_expired_def)
qed

text \<open>
  The pass reaches an order when the market data are had for every pending order before
  it; what comes after the order plays no part in how it is handled.
\<close>

lemma fills_loop_acc_last:
  assumes "fills_loop obs os s (acc @ [x]) = (os', s', Inr filled)"
  shows "x \<in> set filled"
  using fills_loop_acc [OF assms] by simp

lemma fills_loop_head:
  assumes "fills_loop obs ((k, order) # rest) s acc = (os', s', r)"
      and "lo_status order = Pending"
      and "fo_price obs k = Inr cur"
  shows "\<exists>order' rest'. os' = (k, order') # rest'
           \<and> (has_expired obs k order \<longrightarrow> order' = order\<lparr> lo_status := Expired \<rparr>)
           \<and> (\<not> has_expired obs k order \<longrightarrow>
                 (lo_status order' = Filled \<longleftrightarrow>
                    (case lo_side order of Buy \<Rightarrow> js_le cur (lo_price order)
                                         | Sell \<Rightarrow> js_ge cur (lo_price order)))
                 \<and> (js_eq cur (lo_price order) \<longrightarrow> lo_status order' = Filled)
                 \<and> (lo_status order' = Filled \<longrightarrow>
                       order' = order\<lparr> lo_status := Filled,
                                       lo_filledAt := Some (fo_fill_time obs k),
                                       lo_filledAmount := Some (lo_amount order),
                                       lo_filledPrice := Some cur \<rparr>
                       \<and> (\<forall>filled. r = Inr filled \<longrightarrow> order' \<in> set filled))
                 \<and> (lo_status order' \<noteq> Filled \<longrightarrow> order' = order))"
  using assms
  by (cases "lo_side order")
     (auto split: prod.splits sum.splits if_splits
           simp: Let_def should_fill_def js_le_def js_ge_def js_eq_def
           intro: fills_loop_acc_last)

lemma fills_loop_tail:
  assumes "fills_loop obs ((k1, o1) # rest) s acc = (os', s', r)"
      and "lo_status o1 = Pending \<longrightarrow> \<not> isl (fo_price obs k1)"
  shows "\<exists>o1' rest' s1 acc'. os' = (k1, o1') # rest'
           \<and> fills_loop obs rest s1 acc' = (rest', s', r)"
  using assms
  by (cases "fo_price obs k1")
     (auto split: prod.splits if_splits simp: Let_def)

lemma fills_loop_order:
  assumes "fills_loop obs (before @ (k, order) # after) s acc = (os', s', r)"
      and "distinct (map fst (before @ (k, order) # after))"
      and "list_all (\<lambda>(k1, o1). lo_status o1 = Pending \<longrightarrow> \<not> isl (fo_price obs k1)) before"
      and "lo_status order = Pending"
      and "fo_price obs k = Inr cur"
  shows "\<exists>order'. map_of os' k = Some order'
           \<and> (has_expired obs k order \<longrightarrow> order' = order\<lparr> lo_status := Expired \<rparr>)
           \<and> (\<not> has_expired obs k order \<longrightarrow>
                 (lo_status order' = Filled \<longleftrightarrow>
                    (case lo_side order of Buy \<Rightarrow> js_le cur (lo_price order)
                                         | Sell \<Rightarrow> js_ge cur (lo_price order)))
                 \<and> (js_eq cur (lo_price order) \<longrightarrow> lo_status order' = Filled)
                 \<and> (lo_status order' = Filled \<longrightarrow>
                       order' = order\<lparr> lo_status := Filled,
                                       lo_filledAt := Some (fo_fill_time obs k),
                                       lo_filledAmount := Some (lo_amount order),
                                       lo_filledPrice := Some cur \<rparr>
                       \<and> (\<forall>filled. r = Inr filled \<longrightarrow> order' \<in> set filled))
                 \<and> (lo_status order' \<noteq> Filled \<longrightarrow> order' = order))"
  using assms(1-3)
proof (induction before arbitrary: s acc os')
  case Nil
  then have "fills_loop obs ((k, order) # after) s acc = (os', s', r)" by simp
  from fills_loop_head [OF this assms(4,5)]
  obtain order' rest' where os': "os' = (k, order') # rest'"
    and rule: "(has_expired obs k order \<longrightarrow> order' = order\<lparr> lo_status := Expired \<rparr>)
           \<and> (\<not> has_expired obs k order \<longrightarrow>
                 (lo_status order' = Filled \<longleftrightarrow>
                    (case lo_side order of Buy \<Rightarrow> js_le cur (lo_price order)
                                         | Sell \<Rightarrow> js_ge cur (lo_price order)))
                 \<and> (js_eq cur (lo_price order) \<longrightarrow> lo_status order' = Filled)
                 \<and> (lo_status order' = Filled \<longrightarrow>
                       order' = order\<lparr> lo_status := Filled,
                                       lo_filledAt := Some (fo_fill_time obs k),
                                       lo_filledAmount := Some (lo_amount order),
                                       lo_filledPrice := Some cur \<rparr>
                       \<and> (\<forall>filled. r = Inr filled \<longrightarrow> order' \<in> set filled))
                 \<and> (lo_status order' \<noteq> Filled \<longrightarrow> order' = order))"
    by blast
  have "map_of os' k = Some order'" by (simp add: os')
  with rule show ?case by blast
next
  case (Cons a before)
  obtain k1 o1 where a: "a = (k1, o1)" by (cases a)
  from Cons.prems(2) a have ne: "k1 \<noteq> k" by auto
  from Cons.prems(1) a have
    "fills_loop obs ((k1, o1) # before @ (k, order) # after) s acc = (os', s', r)" by simp
  moreover from Cons.prems(3) a have "lo_status o1 = Pending \<longrightarrow> \<not> isl (fo_price obs k1)"
    by simp
  ultimately obtain o1' rest' s1 acc' where os': "os' = (k1, o1') # rest'"
    and run: "fills_loop obs (before @ (k, order) # after) s1 acc' = (rest', s', r)"
    using fills_loop_tail by blast
  from Cons.prems(2) have dist: "distinct (map fst (before @ (k, order) # after))" by simp
  from Cons.prems(3) have reach:
    "list_all (\<lambda>(k1, o1). lo_status o1 = Pending \<longrightarrow> \<not> isl (fo_price obs k1)) before"
    by simp
  have "map_of os' k = map_of rest' k" using ne by (simp add: os')
  with Cons.IH [OF run dist reach] show ?case by (simp only:)
qed

text \<open>
  Claim C6. In a pass of \<open>checkOrderFills\<close>, whether it completes or ends in the error of
  a later order, take a pending order that the pass reaches: the market data are had for
  it and for every pending order before it. If its expiry time has passed (it is a valid
  time before the time of the test), the order becomes expired and is changed in nothing
  else, whatever the price. Otherwise it is filled exactly when the price seen is at most
  its limit (a buy) or at least its limit (a sell), so in both cases when the two are
  equal; the filled order records the price seen and is among the orders that a completed
  pass returns, and an order that is not filled is left as it was.
\<close>

theorem checkOrderFills_per_order:
  assumes "checkOrderFills obs s = (s', r)"
      and "orders s = before @ (k, order) # after"
      and "distinct (map fst (before @ (k, order) # after))"
      and "list_all (\<lambda>(k1, o1). lo_status o1 = Pending \<longrightarrow> \<not> isl (fo_price obs k1)) before"
      and "lo_status order = Pending"
      and "fo_price obs k = Inr cur"
  shows "\<exists>order'. map_of (orders s') k = Some order'
           \<and> ((\<exists>t. lo_expiresAt order = Some (Date t) \<and> t < fo_now obs k)
                \<longrightarrow> order' = order\<lparr> lo_status := Expired \<rparr>)
           \<and> (\<not> (\<exists>t. lo_expiresAt order = Some (Date t) \<and> t < fo_now obs k) \<longrightarrow>
                 (lo_status order' = Filled \<longleftrightarrow>
                    (case lo_side order of Buy \<Rightarrow> js_le cur (lo_price order)
                                         | Sell \<Rightarrow> js_ge cur (lo_price order)))
                 \<and> (js_eq cur (lo_price order) \<longrightarrow> lo_status order' = Filled)
                 \<and> (lo_status order' = Filled \<longrightarrow>
                       order' = order\<lparr> lo_status := Filled,
                                       lo_filledAt := Some (fo_fill_time obs k),
                                       lo_filledAmount := Some (lo_amount order),
                                       lo_filledPrice := Some cur \<rparr>
                       \<and> (\<forall>filled. r = Inr filled \<longrightarrow> order' \<in> set filled))
                 \<and> (lo_status order' \<noteq> Filled \<longrightarrow> order' = order))"
proof -
  from assms(1) obtain os' s1 where
    loop: "fills_loop obs (before @ (k, order) # after) s [] = (os', s1, r)"
    and s': "orders s' = os'"
    by (auto simp: checkOrderFills_def assms(2) split: prod.splits)
  from fills_loop_order [OF loop assms(3-6)] show ?thesis
    unfolding s' has_expired_iff .
qed

lemma fill_pass_1:
  "checkOrderFills fill_obs_1 fill_service_1 =
     (\<lparr> orders = [(''b1'', limit_buy_1\<lparr> lo_status := Filled, lo_filledAt := Some 1001,
                                          lo_filledAmount := Some (Num 5),
                                          lo_filledPrice := Some (Num 100) \<rparr>),
                  (''s1'', limit_sell_1\<lparr> lo_status := Filled, lo_filledAt := Some 1001,
                                           lo_filledAmount := Some (Num 5),
                                           lo_filledPrice := Some (Num 100) \<rparr>),
                  (''x1'', limit_expiring_1\<lparr> lo_status := Expired \<rparr>)],
        stopLossOrders = [],
        orderBook = [(''SOL/USDC'', [entry_of limit_expiring_1])] \<rparr>,
      Inr [limit_buy_1\<lparr> lo_status := Filled, lo_filledAt := Some 1001,
                         lo_filledAmount := Some (Num 5), lo_filledPrice := Some (Num 100) \<rparr>,
           limit_sell_1\<lparr> lo_status := Filled, lo_filledAt := Some 1001,
                          lo_filledAmount := Some (Num 5), lo_filledPrice := Some (Num 100) \<rparr>])"
  by (simp add: checkOrderFills_def fill_service_1_def fill_obs_1_def limit_buy_1_def
        limit_sell_1_def limit_expiring_1_def entry_of_def should_fill_def has_expired_def
        removeFromOrderBook_def entry_matches_def js_le_def js_ge_def js_eq_def Let_def)

lemma fill_pass_2:
  "checkOrderFills fill_obs_2 fill_service_2 =
     (\<lparr> orders = [(''b1'', limit_buy_1\<lparr> lo_status := Filled, lo_filledAt := Some 1001,
                                          lo_filledAmount := Some (Num 5),
                                          lo_filledPrice := Some (Num 100) \<rparr>),
                  (''s2'', limit_sell_2\<lparr> lo_status := Filled, lo_filledAt := Some 1001,
                                           lo_filledAmount := Some (Num 5),
                                           lo_filledPrice := Some (Num 100) \<rparr>),
                  (''x1'', limit_expiring_1\<lparr> lo_status := Expired \<rparr>),
                  (''n1'', limit_buy_low), (''e1'', limit_unpriced)],
        stopLossOrders = [],
        orderBook = [(''SOL/USDC'', [entry_of limit_expiring_1, entry_of limit_buy_low]),
                     (''none'', [entry_of limit_unpriced])] \<rparr>,
      Inl (SarosError ''Invalid public key input''))"
  by (simp add: checkOrderFills_def fill_service_2_def fill_obs_2_def limit_buy_1_def
        limit_sell_1_def limit_sell_2_def limit_expiring_1_def limit_buy_low_def
        limit_unpriced_def entry_of_def should_fill_def has_expired_def
        removeFromOrderBook_def entry_matches_def js_le_def js_ge_def js_eq_def Let_def)

text \<open>
  In the second example the pass ends in the error of its last order. Before that the buy
  at the limit 100 is filled at the price 100, and so is the sell at the limit 100, whose
  expiry time 2000 is after the time 1000 of the pass; the sell at 90, which the price
  would fill, is expired instead because its expiry time 500 has passed; and the buy at
  95 is left pending.
\<close>

theorem checkOrderFills_per_order_witness:
  "(\<exists>order'. map_of (orders (fst (checkOrderFills fill_obs_2 fill_service_2))) ''b1'' = Some order'
              \<and> lo_status order' = Filled \<and> lo_filledPrice order' = Some (Num 100))
   \<and> (\<exists>order'. map_of (orders (fst (checkOrderFills fill_obs_2 fill_service_2))) ''s2'' = Some order'
              \<and> lo_expiresAt order' = Some (Date 2000)
              \<and> lo_status order' = Filled \<and> lo_filledPrice order' = Some (Num 100))
   \<and> (\<exists>order'. map_of (orders (fst (checkOrderFills fill_obs_2 fill_service_2))) ''x1'' = Some order'
              \<and> lo_expiresAt order' = Some (Date 500)
              \<and> lo_status order' = Expired \<and> lo_filledPrice order' = None)
   \<and> (\<exists>order'. map_of (orders (fst (checkOrderFills fill_obs_2 fill_service_2))) ''n1'' = Some order'
              \<and> lo_status order' = Pending \<and> lo_filledPrice order' = None)
   \<and> isl (snd (checkOrderFills fill_obs_2 fill_service_2))"
proof -
  have p: "fo_price fill_obs_2 ''b1'' = Inr (Num 100)" "fo_price fill_obs_2 ''s2'' = Inr (Num 100)"
          "fo_price fill_obs_2 ''x1'' = Inr (Num 100)" "fo_price fill_obs_2 ''n1'' = Inr (Num 100)"
          "fo_now fill_obs_2 k = 1000"
    for k
    by (simp_all add: fill_obs_2_def)
  have b: "orders fill_service_2
             = [] @ (''b1'', limit_buy_1)
                 # [(''s2'', limit_sell_2), (''x1'', limit_expiring_1),
                    (''n1'', limit_buy_low), (''e1'', limit_unpriced)]"
          "distinct (map fst ([] @ (''b1'', limit_buy_1)
                 # [(''s2'', limit_sell_2), (''x1'', limit_expiring_1),
                    (''n1'', limit_buy_low), (''e1'', limit_unpriced)]))"
          "list_all (\<lambda>(k1, o1). lo_status o1 = Pending \<longrightarrow> \<not> isl (fo_price fill_obs_2 k1)) []"
          "lo_status limit_buy_1 = Pending"
          "\<not> (\<exists>t. lo_expiresAt limit_buy_1 = Some (Date t) \<and> t < fo_now fill_obs_2 ''b1'')"
          "js_eq (Num 100) (lo_price limit_buy_1)"
    by (simp_all add: fill_service_2_def limit_buy_1_def js_eq_def)
  have s: "orders fill_service_2
             = [(''b1'', limit_buy_1)] @ (''s2'', limit_sell_2)
                 # [(''x1'', limit_expiring_1), (''n1'', limit_buy_low), (''e1'', limit_unpriced)]"
          "distinct (map fst ([(''b1'', limit_buy_1)] @ (''s2'', limit_sell_2)
                 # [(''x1'', limit_expiring_1), (''n1'', limit_buy_low), (''e1'', limit_unpriced)]))"
          "list_all (\<lambda>(k1, o1). lo_status o1 = Pending \<longrightarrow> \<not> isl (fo_price fill_obs_2 k1))
             [(''b1'', limit_buy_1)]"
          "lo_status limit_sell_2 = Pending"
          "\<not> (\<exists>t. lo_expiresAt limit_sell_2 = Some (Date t) \<and> t < fo_now fill_obs_2 ''s2'')"
          "js_eq (Num 100) (lo_price limit_sell_2)"
          "lo_expiresAt limit_sell_2 = Some (Date 2000)"
    by (simp_all add: fill_service_2_def limit_buy_1_def limit_sell_1_def limit_sell_2_def
          js_eq_def p)
  have x: "orders fill_service_2
             = [(''b1'', limit_buy_1), (''s2'', limit_sell_2)] @ (''x1'', limit_expiring_1)
                 # [(''n1'', limit_buy_low), (''e1'', limit_unpriced)]"
          "distinct (map fst ([(''b1'', limit_buy_1), (''s2'', limit_sell_2)] @ (''x1'', limit_expiring_1)
                 # [(''n1'', limit_buy_low), (''e1'', limit_unpriced)]))"
          "list_all (\<lambda>(k1, o1). lo_status o1 = Pending \<longrightarrow> \<not> isl (fo_price fill_obs_2 k1))
             [(''b1'', limit_buy_1), (''s2'', limit_sell_2)]"
          "lo_status limit_expiring_1 = Pending"
          "\<exists>t. lo_expiresAt limit_expiring_1 = Some (Date t) \<and> t < fo_now fill_obs_2 ''x1''"
          "lo_filledPrice limit_expiring_1 = None"
          "lo_expiresAt limit_expiring_1 = Some (Date 500)"
    by (simp_all add: fill_service_2_def limit_buy_1_def limit_expiring_1_def p)
  have n: "orders fill_service_2
             = [(''b1'', limit_buy_1), (''s2'', limit_sell_2), (''x1'', limit_expiring_1)]
                 @ (''n1'', limit_buy_low) # [(''e1'', limit_unpriced)]"
          "distinct (map fst ([(''b1'', limit_buy_1), (''s2'', limit_sell_2), (''x1'', limit_expiring_1)]
                 @ (''n1'', limit_buy_low) # [(''e1'', limit_unpriced)]))"
          "list_all (\<lambda>(k1, o1). lo_status o1 = Pending \<longrightarrow> \<not> isl (fo_price fill_obs_2 k1))
             [(''b1'', limit_buy_1), (''s2'', limit_sell_2), (''x1'', limit_expiring_1)]"
          "lo_status limit_buy_low = Pending"
          "\<not> (\<exists>t. lo_expiresAt limit_buy_low = Some (Date t) \<and> t < fo_now fill_obs_2 ''n1'')"
          "lo_side limit_buy_low = Buy" "\<not> js_le (Num 100) (lo_price limit_buy_low)"
          "lo_filledPrice limit_buy_low = None"
    by (simp_all add: fill_service_2_def limit_buy_1_def limit_buy_low_def js_le_def js_eq_def p)
  note per_order = checkOrderFills_per_order [OF fill_pass_2]
  from per_order [OF b(1-4) p(1)] b(5,6)
  have 1: "\<exists>order'. map_of (orders (fst (checkOrderFills fill_obs_2 fill_service_2))) ''b1'' = Some order'
              \<and> lo_status order' = Filled \<and> lo_filledPrice order' = Some (Num 100)"
    unfolding fill_pass_2 by auto
  from per_order [OF s(1-4) p(2)] s(5-7)
  have 2: "\<exists>order'. map_of (orders (fst (checkOrderFills fill_obs_2 fill_service_2))) ''s2'' = Some order'
              \<and> lo_expiresAt order' = Some (Date 2000)
              \<and> lo_status order' = Filled \<and> lo_filledPrice order' = Some (Num 100)"
    unfolding fill_pass_2 by auto
  from per_order [OF x(1-4) p(3)] x(5-7)
  have 3: "\<exists>order'. map_of (orders (fst (checkOrderFills fill_obs_2 fill_service_2))) ''x1'' = Some order'
              \<and> lo_expiresAt order' = Some (Date 500)
              \<and> lo_status order' = Expired \<and> lo_filledPrice order' = None"
    unfolding fill_pass_2 by auto
  from per_order [OF n(1-4) p(4)] n(4-8)
  have 4: "\<exists>order'. map_of (orders (fst (checkOrderFills fill_obs_2 fill_service_2))) ''n1'' = Some order'
              \<and> lo_status order' = Pending \<and> lo_filledPrice order' = None"
    unfolding fill_pass_2 by auto
  have 5: "isl (snd (checkOrderFills fill_obs_2 fill_service_2))"
    unfolding fill_pass_2 by simp
  from 1 2 3 4 5 show ?thesis by blast
qed
section \<open>The order book after an expiry\<close>

lemma map_of_map_set: "map_of (map_set k v m) k' = (if k' = k then Some v else map_of m k')"
  by (induction m) auto

lemma book_entries_removeFromOrderBook:
  "book_entries (removeFromOrderBook order s) pr =
     (if pr = lo_pair order then remove_first (entry_matches order) (book_entries s pr)
      else book_entries s pr)"
  by (auto simp: removeFromOrderBook_def book_entries_def map_of_map_set split: option.splits)

lemma orders_removeFromOrderBook: "orders (removeFromOrderBook order s) = orders s"
  by (simp add: removeFromOrderBook_def split: option.splits)

lemma filter_remove_first_le:
  "length (filter Q xs) \<le> Suc (length (filter Q (remove_first P xs)))"
  by (induction xs) auto

lemma filter_remove_first_other:
  "\<forall>x. P x \<longrightarrow> \<not> Q x \<Longrightarrow> filter Q (remove_first P xs) = filter Q xs"
  by (induction xs) auto

lemma entry_count_removeFromOrderBook:
  "entry_count p a sd (book_entries s pr)
     \<le> entry_count p a sd (book_entries (removeFromOrderBook order s) pr)
         + (if has_key pr p a sd order then 1 else 0)"
proof (cases "has_key pr p a sd order")
  case True
  then show ?thesis
    using filter_remove_first_le [of "\<lambda>e. ob_price e = p \<and> ob_amount e = a \<and> ob_side e = sd"
        "book_entries s pr" "entry_matches order"]
    by (simp add: entry_count_def book_entries_removeFromOrderBook has_key_def)
next
  case False
  show ?thesis
  proof (cases "pr = lo_pair order")
    case True
    with False have "\<forall>e. entry_matches order e \<longrightarrow>
                       \<not> (ob_price e = p \<and> ob_amount e = a \<and> ob_side e = sd)"
      by (auto simp: has_key_def entry_matches_def js_eq_def)
    from filter_remove_first_other [OF this] True False
    show ?thesis
      by (simp add: entry_count_def book_entries_removeFromOrderBook)
  next
    case False
    then show ?thesis by (simp add: book_entries_removeFromOrderBook)
  qed
qed

lemma fills_loop_counts:
  "fills_loop obs os s acc = (os', s', r) \<Longrightarrow>
   entry_count p a sd (book_entries s pr) + pending_count pr p a sd os'
     + expired_count pr p a sd os os'
     \<le> entry_count p a sd (book_entries s' pr) + pending_count pr p a sd os"
proof (induction os arbitrary: s acc os' s' r)
  case Nil
  then show ?case by (simp add: pending_count_def expired_count_def)
next
  case (Cons ko rest)
  obtain k order where ko: "ko = (k, order)" by (cases ko)
  note defs = pending_count_def expired_count_def
  show ?case
  proof (cases "lo_status order \<noteq> Pending")
    case True
    with Cons.prems ko obtain rest' where
      run: "fills_loop obs rest s acc = (rest', s', r)" and os': "os' = (k, order) # rest'"
      by (auto split: prod.splits)
    from Cons.IH [OF run] True show ?thesis by (simp add: defs ko os')
  next
    case pending: False
    show ?thesis
    proof (cases "fo_price obs k")
      case (Inl e)
      with Cons.prems ko pending have "os' = ko # rest" "s' = s" by auto
      then show ?thesis
        by (auto simp: defs ko zip_same_conv_map filter_map o_def)
    next
      case (Inr cur)
      show ?thesis
      proof (cases "has_expired obs k order")
        case True
        with Cons.prems ko pending Inr obtain rest' where
          run: "fills_loop obs rest s acc = (rest', s', r)"
          and os': "os' = (k, order\<lparr> lo_status := Expired \<rparr>) # rest'"
          by (auto split: prod.splits simp: Let_def)
        from Cons.IH [OF run] pending show ?thesis
          by (simp add: defs ko os' has_key_def)
      next
        case notexp: False
        show ?thesis
        proof (cases "should_fill order cur")
          case True
          define order' where "order' = order\<lparr> lo_status := Filled,
                                          lo_filledAt := Some (fo_fill_time obs k),
                                          lo_filledAmount := Some (lo_amount order),
                                          lo_filledPrice := Some cur \<rparr>"
          from Cons.prems ko pending Inr notexp True obtain rest' where
            run: "fills_loop obs rest (removeFromOrderBook order' s) (acc @ [order']) = (rest', s', r)"
            and os': "os' = (k, order') # rest'"
            by (auto split: prod.splits simp: Let_def order'_def)
          have key: "has_key pr p a sd order' = has_key pr p a sd order"
            by (simp add: has_key_def order'_def)
          have st: "lo_status order' = Filled" by (simp add: order'_def)
          from Cons.IH [OF run] entry_count_removeFromOrderBook [of p a sd s pr order']
          show ?thesis using pending st
            by (auto simp: defs ko os' key split: if_splits)
        next
          case False
          with Cons.prems ko pending Inr notexp obtain rest' where
            run: "fills_loop obs rest s acc = (rest', s', r)" and os': "os' = (k, order) # rest'"
            by (auto split: prod.splits simp: Let_def)
          from Cons.IH [OF run] pending show ?thesis by (simp add: defs ko os')
        qed
      qed
    qed
  qed
qed

lemma expired_position:
  assumes "map fst os' = map fst os" "distinct (map fst os)" "(k, order) \<in> set os"
      and "lo_status order = Pending" "map_of os' k = Some order'" "lo_status order' = Expired"
  shows "1 \<le> expired_count (lo_pair order) (lo_price order) (lo_amount order) (lo_side order) os os'"
  using assms
proof (induction os arbitrary: os')
  case Nil
  then show ?case by simp
next
  case (Cons ko rest)
  from Cons.prems(1) obtain ko' rest' where os': "os' = ko' # rest'"
    and k': "fst ko' = fst ko" and r': "map fst rest' = map fst rest"
    by (cases os') auto
  show ?case
  proof (cases "fst ko = k")
    case True
    with Cons.prems(2,3) have "snd ko = order"
      by (cases ko) (auto simp: rev_image_eqI)
    moreover from True k' Cons.prems(5) os' have "snd ko' = order'"
      by (cases ko') auto
    ultimately show ?thesis using Cons.prems(4,6)
      by (simp add: expired_count_def os' has_key_def)
  next
    case False
    with Cons.prems have mem: "(k, order) \<in> set rest" by auto
    from Cons.prems(2) have dist: "distinct (map fst rest)" by simp
    from False k' Cons.prems(5) os' have look: "map_of rest' k = Some order'"
      by (cases ko') auto
    from Cons.IH [OF r' dist mem Cons.prems(4) look Cons.prems(6)] show ?thesis
      by (simp add: expired_count_def os')
  qed
qed

lemma book_covers_all:
  assumes "book_covers s"
  shows "pending_count pr p a sd (orders s) \<le> entry_count p a sd (book_entries s pr)"
proof (cases "filter (\<lambda>ko. lo_status (snd ko) = Pending \<and> has_key pr p a sd (snd ko)) (orders s)")
  case Nil
  then show ?thesis by (simp add: pending_count_def)
next
  case (Cons ko rest)
  then have "ko \<in> set (filter (\<lambda>ko. lo_status (snd ko) = Pending \<and> has_key pr p a sd (snd ko)) (orders s))"
    by simp
  then have ko: "ko \<in> set (orders s)" "lo_status (snd ko) = Pending" "has_key pr p a sd (snd ko)"
    by auto
  with assms have "covered s (snd ko)" by (auto simp: book_covers_def)
  with ko(3) show ?thesis by (simp add: covered_def has_key_def)
qed

lemma book_covers_intro:
  assumes "\<And>pr p a sd. pending_count pr p a sd (orders s) \<le> entry_count p a sd (book_entries s pr)"
  shows "book_covers s"
  using assms by (simp add: book_covers_def covered_def)

lemma checkOrderFills_counts:
  assumes "checkOrderFills obs s = (s', r)"
  shows "entry_count p a sd (book_entries s pr) + pending_count pr p a sd (orders s')
           + expired_count pr p a sd (orders s) (orders s')
         \<le> entry_count p a sd (book_entries s' pr) + pending_count pr p a sd (orders s)"
proof -
  from assms obtain os' s1 where
    loop: "fills_loop obs (orders s) s [] = (os', s1, r)" and s': "s' = s1\<lparr> orders := os' \<rparr>"
    by (auto simp: checkOrderFills_def split: prod.splits)
  have "book_entries s' pr = book_entries s1 pr" "orders s' = os'"
    by (simp_all add: s' book_entries_def)
  with fills_loop_counts [OF loop, of p a sd pr] show ?thesis by simp
qed

text \<open>
  Claim C10. Expiry leaves the order book alone. In a service whose order book covers its
  pending orders, after any pass of \<open>checkOrderFills\<close> (completed or ended by an error)
  in which a pending order became expired, the entries of the order's pair still hold an
  entry with its price, amount and side.
\<close>

theorem expired_order_stays_in_book:
  assumes "book_covers s"
      and "checkOrderFills obs s = (s', r)"
      and "distinct (map fst (orders s))" "(k, order) \<in> set (orders s)"
      and "lo_status order = Pending"
      and "map_of (orders s') k = Some order'" "lo_status order' = Expired"
  shows "\<exists>e. e \<in> set (book_entries s' (lo_pair order))
             \<and> ob_price e = lo_price order \<and> ob_amount e = lo_amount order
             \<and> ob_side e = lo_side order"
proof -
  from assms(2) obtain os' s1 where
    loop: "fills_loop obs (orders s) s [] = (os', s1, r)" and s': "orders s' = os'"
    by (auto simp: checkOrderFills_def split: prod.splits)
  from fills_loop_keys [OF loop] s' have keys: "map fst (orders s') = map fst (orders s)" by simp
  let ?pr = "lo_pair order" and ?p = "lo_price order" and ?a = "lo_amount order"
    and ?sd = "lo_side order"
  from expired_position [OF keys assms(3-7)]
  have "1 \<le> expired_count ?pr ?p ?a ?sd (orders s) (orders s')" .
  with checkOrderFills_counts [OF assms(2), of ?p ?a ?sd ?pr]
    book_covers_all [OF assms(1), of ?pr ?p ?a ?sd]
  have "1 \<le> entry_count ?p ?a ?sd (book_entries s' ?pr)" by linarith
  then have "filter (\<lambda>e. ob_price e = ?p \<and> ob_amount e = ?a \<and> ob_side e = ?sd)
               (book_entries s' ?pr) \<noteq> []"
    by (auto simp: entry_count_def)
  then obtain e where "e \<in> set (filter (\<lambda>e. ob_price e = ?p \<and> ob_amount e = ?a \<and> ob_side e = ?sd)
               (book_entries s' ?pr))"
    by (cases "filter (\<lambda>e. ob_price e = ?p \<and> ob_amount e = ?a \<and> ob_side e = ?sd)
               (book_entries s' ?pr)") auto
  then show ?thesis by auto
qed

lemma book_covers_fill_service_1: "book_covers fill_service_1"
  by (simp add: book_covers_def covered_def pending_count_def entry_count_def has_key_def
        fill_service_1_def book_entries_def limit_buy_1_def limit_sell_1_def
        limit_expiring_1_def entry_of_def)

theorem expired_order_stays_in_book_witness:
  "\<exists>e. e \<in> set (book_entries (fst (checkOrderFills fill_obs_1 fill_service_1)) ''SOL/USDC'')
        \<and> ob_price e = Num 90 \<and> ob_amount e = Num 7 \<and> ob_side e = Sell"
proof -
  have d: "distinct (map fst (orders fill_service_1))"
    by (simp add: fill_service_1_def)
  have x: "(''x1'', limit_expiring_1) \<in> set (orders fill_service_1)"
          "lo_status limit_expiring_1 = Pending"
    by (simp_all add: fill_service_1_def limit_buy_1_def limit_expiring_1_def)
  have after: "map_of (orders (fst (checkOrderFills fill_obs_1 fill_service_1))) ''x1''
                 = Some (limit_expiring_1\<lparr> lo_status := Expired \<rparr>)"
              "lo_status (limit_expiring_1\<lparr> lo_status := Expired \<rparr>) = Expired"
    by (simp_all add: fill_pass_1)
  have run: "checkOrderFills fill_obs_1 fill_service_1
               = (fst (checkOrderFills fill_obs_1 fill_service_1),
                  snd (checkOrderFills fill_obs_1 fill_service_1))"
    by simp
  from expired_order_stays_in_book [OF book_covers_fill_service_1 run d x after]
  show ?thesis
    by (simp add: limit_expiring_1_def limit_buy_1_def)
qed

text \<open>
  The covering of the pending orders by the order book holds of the empty service and is
  kept by every operation on limit orders.
\<close>

lemma book_covers_empty_service: "book_covers empty_service"
  by (simp add: book_covers_def empty_service_def)

lemma book_covers_checkOrderFills:
  assumes "book_covers s" "checkOrderFills obs s = (s', r)"
  shows "book_covers s'"
proof (rule book_covers_intro)
  fix pr p a sd
  from checkOrderFills_counts [OF assms(2), of p a sd pr] book_covers_all [OF assms(1), of pr p a sd]
  show "pending_count pr p a sd (orders s') \<le> entry_count p a sd (book_entries s' pr)"
    by linarith
qed

lemma pending_count_map_set_le:
  "pending_count pr p a sd (map_set k v m)
     \<le> pending_count pr p a sd m + (if lo_status v = Pending \<and> has_key pr p a sd v then 1 else 0)"
  by (induction m) (auto simp: pending_count_def)

lemma pending_count_map_set_cancel:
  "map_of m k = Some order \<Longrightarrow> lo_status order' \<noteq> Pending \<Longrightarrow>
   pending_count pr p a sd (map_set k order' m)
     + (if lo_status order = Pending \<and> has_key pr p a sd order then 1 else 0)
     = pending_count pr p a sd m"
  by (induction m) (auto simp: pending_count_def)

lemma filter_sort_insert:
  "length (filter Q (sort_insert cmp x ys)) = length (filter Q (x # ys))"
  by (induction ys) auto

lemma filter_js_sort: "length (filter Q (js_sort cmp xs)) = length (filter Q xs)"
  by (induction xs) (auto simp: js_sort_def filter_sort_insert)

lemma book_entries_addToOrderBook:
  "book_entries (addToOrderBook order s) pr =
     (if pr = lo_pair order then js_sort book_cmp (book_entries s pr @ [entry_of order])
      else book_entries s pr)"
  by (simp add: addToOrderBook_def book_entries_def map_of_map_set Let_def)

lemma entry_count_addToOrderBook:
  "entry_count p a sd (book_entries (addToOrderBook order s) pr)
     = entry_count p a sd (book_entries s pr) + (if has_key pr p a sd order then 1 else 0)"
  by (auto simp: entry_count_def book_entries_addToOrderBook filter_js_sort has_key_def entry_of_def)

lemma book_entries_orders_update:
  "book_entries (s\<lparr> orders := os \<rparr>) pr = book_entries s pr"
  by (simp add: book_entries_def)

lemma book_covers_createLimitOrder:
  assumes "book_covers s" "createLimitOrder pairInfo orderId now params s = (s', r)"
  shows "book_covers s'"
proof (cases "s' = s")
  case True
  with assms(1) show ?thesis by simp
next
  case False
  define order where
    "order = \<lparr> lo_id = orderId, lo_pair = cp_pair params, lo_side = cp_side params,
               lo_amount = cp_amount params, lo_price = cp_price params,
               lo_binId = findBinForPrice (cp_price params), lo_status = Pending,
               lo_createdAt = now, lo_expiresAt = cp_expiresAt params, lo_filledAt = None,
               lo_filledAmount = None, lo_filledPrice = None \<rparr>"
  from assms(2) False
  have s': "s' = addToOrderBook order (s\<lparr> orders := map_set orderId order (orders s) \<rparr>)"
    by (auto simp: createLimitOrder_def Let_def order_def
             split: sum.splits option.splits if_splits)
  have pend: "lo_status order = Pending" by (simp add: order_def)
  show ?thesis
  proof (rule book_covers_intro)
    fix pr p a sd
    have "orders s' = map_set orderId order (orders s)"
      by (simp add: s' addToOrderBook_def Let_def)
    with pending_count_map_set_le [of pr p a sd orderId order "orders s"] pend
      book_covers_all [OF assms(1), of pr p a sd]
    show "pending_count pr p a sd (orders s') \<le> entry_count p a sd (book_entries s' pr)"
      by (simp add: s' entry_count_addToOrderBook book_entries_orders_update)
  qed
qed

lemma book_covers_cancelLimitOrder:
  assumes "book_covers s" "cancelLimitOrder orderId s = (s', r)"
  shows "book_covers s'"
proof (cases "s' = s")
  case True
  with assms(1) show ?thesis by simp
next
  case False
  with assms(2) obtain order where
    look: "map_of (orders s) orderId = Some order" and pend: "lo_status order = Pending"
    and s': "s' = removeFromOrderBook (order\<lparr> lo_status := Cancelled \<rparr>)
                    (s\<lparr> orders := map_set orderId (order\<lparr> lo_status := Cancelled \<rparr>) (orders s) \<rparr>)"
    by (auto simp: cancelLimitOrder_def Let_def split: option.splits if_splits)
  show ?thesis
  proof (rule book_covers_intro)
    fix pr p a sd
    have key: "has_key pr p a sd (order\<lparr> lo_status := Cancelled \<rparr>) = has_key pr p a sd order"
      by (simp add: has_key_def)
    have os: "orders s' = map_set orderId (order\<lparr> lo_status := Cancelled \<rparr>) (orders s)"
      by (simp add: s' orders_removeFromOrderBook)
    have e: "entry_count p a sd (book_entries s pr)
               \<le> entry_count p a sd (book_entries s' pr) + (if has_key pr p a sd order then 1 else 0)"
      using entry_count_removeFromOrderBook [of p a sd
        "s\<lparr> orders := map_set orderId (order\<lparr> lo_status := Cancelled \<rparr>) (orders s) \<rparr>" pr
        "order\<lparr> lo_status := Cancelled \<rparr>"]
      by (simp only: s' [symmetric] key book_entries_orders_update)
    have c: "pending_count pr p a sd (orders s') + (if has_key pr p a sd order then 1 else 0)
               = pending_count pr p a sd (orders s)"
      using pending_count_map_set_cancel [OF look, of "order\<lparr> lo_status := Cancelled \<rparr>" pr p a sd]
        pend
      by (simp add: os)
    from e c book_covers_all [OF assms(1), of pr p a sd]
    show "pending_count pr p a sd (orders s') \<le> entry_count p a sd (book_entries s' pr)"
      by (simp split: if_splits)
  qed
qed

section \<open>Statistics of a simulation\<close>




lemma js_div_NaN_right: "js_div a NaN = NaN"
  by (cases a) auto

text \<open>
  Without a negative return the downside variance is \<^verbatim>\<open>0/0\<close>; the test
  \<^verbatim>\<open>downsideDeviation === 0\<close> is false of \<open>NaN\<close>, and the division gives \<open>NaN\<close>.
\<close>

lemma sortino_without_negative_returns:
  assumes "filter (\<lambda>r. js_lt r (Num 0)) returns = []"
  shows "sortinoRatio (calculateAdvancedMetrics returns values_list) = NaN"
  using assms
  by (simp add: calculateAdvancedMetrics_def Let_def inf_of_sign_def js_eq_def js_div_NaN_right)


text \<open>
  Claim C4. The Sortino ratio of a series without a negative return is claimed to be 0.
  For the two returns 0.01 and 0.02 it is \<open>NaN\<close>.
\<close>

theorem sortino_of_positive_returns:
  "sortinoRatio (calculateAdvancedMetrics [Num (1 / 100), Num (2 / 100)]
                   [Num 100, Num 101, Num (10302 / 100)]) = NaN"
  by (rule sortino_without_negative_returns) simp

section \<open>Runs of the simulator\<close>

lemma js_index_last: "xs \<noteq> [] \<Longrightarrow> js_index xs (int (length xs) - 1) = last xs"
  by (cases xs rule: rev_cases) (auto simp: js_index_def nth_append)

lemma simulate_prices_fields:
  "dailyReturns (simulate_prices params startDate priceData) =
     st_dailyReturns (foldl (simulation_step params startDate priceData)
        \<lparr> st_portfolioValue = initialCapital params, st_totalFees = Num 0, st_dailyReturns = [],
          st_portfolioValues = [initialCapital params], st_rebalanceEvents = [] \<rparr>
        [1 ..< length priceData])"
  "portfolioValues (simulate_prices params startDate priceData) =
     st_portfolioValues (foldl (simulation_step params startDate priceData)
        \<lparr> st_portfolioValue = initialCapital params, st_totalFees = Num 0, st_dailyReturns = [],
          st_portfolioValues = [initialCapital params], st_rebalanceEvents = [] \<rparr>
        [1 ..< length priceData])"
  "rebalanceEvents (simulate_prices params startDate priceData) =
     st_rebalanceEvents (foldl (simulation_step params startDate priceData)
        \<lparr> st_portfolioValue = initialCapital params, st_totalFees = Num 0, st_dailyReturns = [],
          st_portfolioValues = [initialCapital params], st_rebalanceEvents = [] \<rparr>
        [1 ..< length priceData])"
  "sharpeRatio (simulate_prices params startDate priceData) =
     calculateSharpeRatio (dailyReturns (simulate_prices params startDate priceData))"
  "winRate (simulate_prices params startDate priceData) =
     js_div (Num (of_nat (length (filter (\<lambda>r. js_gt r (Num 0))
                (dailyReturns (simulate_prices params startDate priceData))))))
            (Num (of_nat (length (dailyReturns (simulate_prices params startDate priceData)))))"
  "metrics (simulate_prices params startDate priceData) =
     calculateAdvancedMetrics (dailyReturns (simulate_prices params startDate priceData))
       (portfolioValues (simulate_prices params startDate priceData))"
  by (simp_all add: simulate_prices_def Let_def)

lemma days_between_start:
  "days_between (new_Date (now - d * day_ms)) (Date now) =
     (if \<bar>now - d * day_ms\<bar> \<le> 8640000000000000 then Some d else None)"
proof -
  have "(now - d * day_ms - now) div day_ms = - d"
  proof -
    have "now - d * day_ms - now = (- d) * day_ms" by simp
    then show ?thesis by (simp only: day_ms_def) simp
  qed
  then show ?thesis by (simp add: new_Date_def)
qed

lemma length_price_steps: "length (price_steps rnd cur ks) = length ks"
  by (induction ks arbitrary: cur) (auto simp: Let_def)

lemma length_generatePriceData:
  "length (generatePriceData rnd (new_Date (now - d * day_ms)) (Date now) p) =
     (if \<bar>now - d * day_ms\<bar> \<le> 8640000000000000 then nat (max 1 d) else 1)"
  by (auto simp: generatePriceData_def Let_def days_between_start length_price_steps)

text \<open>The start of a run of whole days.\<close>

lemma new_Date_of_int: "new_Date_of (of_int t) = new_Date t"
proof -
  have "\<bar>of_int t :: real\<bar> \<le> 8640000000000000 \<longleftrightarrow> \<bar>t\<bar> \<le> 8640000000000000"
    by linarith
  then show ?thesis by (simp add: new_Date_of_def new_Date_def js_trunc_def)
qed

lemma start_of_whole_days:
  "new_Date_of (of_int now - of_int d * of_int day_ms) = new_Date (now - d * day_ms)"
  using new_Date_of_int [of "now - d * day_ms"] by simp

text \<open>
  A duration of at most one day: the start is at most one day before the end also after
  the truncation, so there is at most one day between the two and the loop adds no price
  to the first.
\<close>

lemma js_trunc_ge: "of_int m \<le> x \<Longrightarrow> m \<le> js_trunc x"
  unfolding js_trunc_def by (simp add: le_floor_iff) linarith

lemma generatePriceData_short:
  assumes "d \<le> 1"
  shows "generatePriceData rnd (new_Date_of (of_int now - d * of_int day_ms)) (Date now) p
           = [Num 100]"
proof (cases "\<bar>of_int now - d * of_int day_ms\<bar> \<le> (8640000000000000::real)")
  case False
  then show ?thesis by (simp add: generatePriceData_def new_Date_of_def)
next
  case True
  let ?t = "js_trunc (of_int now - d * of_int day_ms)"
  have "0 < (of_int day_ms :: real)" by (simp add: day_ms_def)
  with assms have "d * of_int day_ms \<le> 1 * of_int day_ms"
    by (intro mult_right_mono) simp_all
  then have "(of_int (now - day_ms) :: real) \<le> of_int now - d * of_int day_ms" by simp
  then have "now - day_ms \<le> ?t" by (rule js_trunc_ge)
  then have "- 1 * day_ms \<le> ?t - now" by simp
  moreover have "0 < day_ms" by (simp add: day_ms_def)
  ultimately have "(- 1 * day_ms) div day_ms \<le> (?t - now) div day_ms"
    by (rule zdiv_mono1)
  moreover have "(- 1 * day_ms) div day_ms = - 1" by (simp add: day_ms_def)
  ultimately have "- 1 \<le> (?t - now) div day_ms" by simp
  then have "nat (- ((?t - now) div day_ms)) \<le> 1" by simp
  then show ?thesis
    using True by (simp add: generatePriceData_def new_Date_of_def)
qed






lemma length_simulation_loop:
  "st_portfolioValues st \<noteq> [] \<Longrightarrow>
   length (st_portfolioValues (foldl (simulation_step params startDate priceData) st ks))
     = length (st_portfolioValues st) + length ks
   \<and> length (st_dailyReturns (foldl (simulation_step params startDate priceData) st ks))
     = length (st_dailyReturns st) + length ks
   \<and> hd (st_portfolioValues (foldl (simulation_step params startDate priceData) st ks))
     = hd (st_portfolioValues st)"
proof (induction ks arbitrary: st)
  case Nil
  then show ?case by simp
next
  case (Cons k ks)
  let ?st = "simulation_step params startDate priceData st k"
  from Cons.prems
  have step: "length (st_portfolioValues ?st) = Suc (length (st_portfolioValues st))"
       "length (st_dailyReturns ?st) = Suc (length (st_dailyReturns st))"
       "hd (st_portfolioValues ?st) = hd (st_portfolioValues st)"
       "st_portfolioValues ?st \<noteq> []"
    by (auto simp: simulation_step_def Let_def)
  from Cons.IH [OF step(4)] step(1-3) show ?case
    by simp
qed

text \<open>
  A run of \<open>d\<close> whole days has \<open>d\<close> portfolio values and \<open>d - 1\<close> daily returns.
\<close>

lemma runSimulation_lengths:
  assumes "duration params = of_int d" "1 \<le> d" "\<bar>now - d * day_ms\<bar> \<le> 8640000000000000"
  shows "\<exists>r. runSimulation now rnd params = Inr r
             \<and> length (portfolioValues r) = nat d
             \<and> length (dailyReturns r) = nat d - 1
             \<and> hd (portfolioValues r) = initialCapital params"
proof -
  let ?sd = "new_Date (now - d * day_ms)"
  let ?pd = "generatePriceData rnd ?sd (Date now) (pair params)"
  have len: "length ?pd = nat d"
    using assms by (simp add: length_generatePriceData)
  let ?init = "\<lparr> st_portfolioValue = initialCapital params, st_totalFees = Num 0, st_dailyReturns = [],
          st_portfolioValues = [initialCapital params], st_rebalanceEvents = [] \<rparr>"
  have ne: "st_portfolioValues ?init \<noteq> []" by simp
  have n: "length [1 ..< length ?pd] = nat d - 1"
    by (simp add: len)
  from length_simulation_loop [OF ne, of params ?sd ?pd "[1 ..< length ?pd]"] assms(2)
  have "length (portfolioValues (simulate_prices params ?sd ?pd)) = nat d"
       "length (dailyReturns (simulate_prices params ?sd ?pd)) = nat d - 1"
       "hd (portfolioValues (simulate_prices params ?sd ?pd)) = initialCapital params"
    unfolding simulate_prices_fields n by simp_all
  then show ?thesis
    by (simp add: runSimulation_def Let_def assms(1) start_of_whole_days)
qed

text \<open>
  Claim C3. A run of \<open>d\<close> days is claimed to return \<open>d + 1\<close> portfolio values. A run of
  one day returns one value, the initial capital, and no daily return.
\<close>

theorem runSimulation_one_day_values:
  "\<not> isl (runSimulation clock_1 flat_draws one_day_params)
   \<and> portfolioValues (projr (runSimulation clock_1 flat_draws one_day_params)) = [Num 10000]
   \<and> length (portfolioValues (projr (runSimulation clock_1 flat_draws one_day_params))) = 1
   \<and> dailyReturns (projr (runSimulation clock_1 flat_draws one_day_params)) = []"
proof -
  let ?sd = "new_Date_of (of_int clock_1 - duration one_day_params * of_int day_ms)"
  let ?r = "simulate_prices one_day_params ?sd [Num 100]"
  have "generatePriceData flat_draws ?sd (Date clock_1) (pair one_day_params) = [Num 100]"
    by (rule generatePriceData_short) (simp add: one_day_params_def)
  then have run: "runSimulation clock_1 flat_draws one_day_params = Inr ?r"
    by (simp add: runSimulation_def Let_def)
  have "dailyReturns ?r = []" "portfolioValues ?r = [Num 10000]"
    by (simp_all add: simulate_prices_fields one_day_params_def)
  then show ?thesis by (simp add: run)
qed

section \<open>The passive strategy over a constant price\<close>

lemma passive_step:
  assumes "strategy params = Passive"
      and "priceData = replicate m (Num 100)" "1 \<le> i" "i < m"
      and "st_portfolioValue st = Num v" "0 < v"
      and "st_portfolioValues st \<noteq> []" "last (st_portfolioValues st) = Num v"
  shows "\<exists>v'. 0 < v'
           \<and> st_portfolioValue (simulation_step params startDate priceData st i) = Num v'
           \<and> st_portfolioValues (simulation_step params startDate priceData st i)
                = st_portfolioValues st @ [Num v']
           \<and> st_dailyReturns (simulation_step params startDate priceData st i)
                = st_dailyReturns st @ [weekly_return i]
           \<and> map ev_timestamp (st_rebalanceEvents (simulation_step params startDate priceData st i))
                = map ev_timestamp (st_rebalanceEvents st)
                  @ map (\<lambda>i. date_plus startDate (int i * day_ms)) (filter (\<lambda>i. i mod 7 = 0) [i])"
proof -
  have cur: "js_index priceData (int i) = Num 100" "js_index priceData (int i - 1) = Num 100"
    using assms(2-4) by (simp_all add: js_index_def nat_diff_distrib)
  have prev: "js_index (st_portfolioValues st) (int (length (st_portfolioValues st)) - 1) = Num v"
    using assms(7,8) by (simp add: js_index_last)
  show ?thesis
  proof (cases "i mod 7 = 0")
    case True
    have "0 < v - v * (3 / 1000)" using assms(6) by simp
    moreover have "(v - v * (3 / 1000) - v) / v = - 3 / 1000" using assms(6) by simp
    ultimately show ?thesis
      using True assms(1,5,6) prev
      by (intro exI [of _ "v - v * (3 / 1000)"])
         (simp add: simulation_step_def Let_def cur applyStrategy_def applyPassiveStrategy_def
            executeRebalance_def js_sub_def weekly_return_def prev)
  next
    case False
    then show ?thesis
      using assms(1,5,6) prev
      by (intro exI [of _ v])
         (simp add: simulation_step_def Let_def cur applyStrategy_def applyPassiveStrategy_def
            getLiquidityExposure_def js_sub_def weekly_return_def prev)
  qed
qed

lemma passive_loop:
  assumes "strategy params = Passive"
      and "priceData = replicate m (Num 100)"
      and "initialCapital params = Num c" "0 < c"
      and "1 \<le> n" "n \<le> m"
  shows "\<exists>v. 0 < v
           \<and> st_portfolioValue (foldl (simulation_step params startDate priceData)
                 \<lparr> st_portfolioValue = initialCapital params, st_totalFees = Num 0,
                   st_dailyReturns = [], st_portfolioValues = [initialCapital params],
                   st_rebalanceEvents = [] \<rparr> [1 ..< n]) = Num v
           \<and> st_portfolioValues (foldl (simulation_step params startDate priceData)
                 \<lparr> st_portfolioValue = initialCapital params, st_totalFees = Num 0,
                   st_dailyReturns = [], st_portfolioValues = [initialCapital params],
                   st_rebalanceEvents = [] \<rparr> [1 ..< n]) \<noteq> []
           \<and> last (st_portfolioValues (foldl (simulation_step params startDate priceData)
                 \<lparr> st_portfolioValue = initialCapital params, st_totalFees = Num 0,
                   st_dailyReturns = [], st_portfolioValues = [initialCapital params],
                   st_rebalanceEvents = [] \<rparr> [1 ..< n])) = Num v
           \<and> st_dailyReturns (foldl (simulation_step params startDate priceData)
                 \<lparr> st_portfolioValue = initialCapital params, st_totalFees = Num 0,
                   st_dailyReturns = [], st_portfolioValues = [initialCapital params],
                   st_rebalanceEvents = [] \<rparr> [1 ..< n]) = map weekly_return [1 ..< n]
           \<and> map ev_timestamp (st_rebalanceEvents (foldl (simulation_step params startDate priceData)
                 \<lparr> st_portfolioValue = initialCapital params, st_totalFees = Num 0,
                   st_dailyReturns = [], st_portfolioValues = [initialCapital params],
                   st_rebalanceEvents = [] \<rparr> [1 ..< n]))
               = map (\<lambda>i. date_plus startDate (int i * day_ms)) (filter (\<lambda>i. i mod 7 = 0) [1 ..< n])"
  using assms(5,6)
proof (induction n rule: nat_induct_at_least)
  case base
  then show ?case using assms(3,4) by simp
next
  case (Suc n)
  let ?init = "\<lparr> st_portfolioValue = initialCapital params, st_totalFees = Num 0,
                st_dailyReturns = [], st_portfolioValues = [initialCapital params],
                st_rebalanceEvents = [] \<rparr>"
  let ?st = "foldl (simulation_step params startDate priceData) ?init [1 ..< n]"
  from Suc.prems have "n \<le> m" "n < m" by simp_all
  from Suc.IH [OF this(1)] obtain v where v: "0 < v" "st_portfolioValue ?st = Num v"
      "st_portfolioValues ?st \<noteq> []" "last (st_portfolioValues ?st) = Num v"
      "st_dailyReturns ?st = map weekly_return [1 ..< n]"
      "map ev_timestamp (st_rebalanceEvents ?st)
         = map (\<lambda>i. date_plus startDate (int i * day_ms)) (filter (\<lambda>i. i mod 7 = 0) [1 ..< n])"
    by blast
  have unfold: "foldl (simulation_step params startDate priceData) ?init [1 ..< Suc n]
                  = simulation_step params startDate priceData ?st n"
    using Suc.hyps by simp
  from passive_step [OF assms(1,2) Suc.hyps \<open>n < m\<close> v(2) v(1) v(3) v(4), of startDate]
  obtain v' where v': "0 < v'"
      "st_portfolioValue (simulation_step params startDate priceData ?st n) = Num v'"
      "st_portfolioValues (simulation_step params startDate priceData ?st n)
         = st_portfolioValues ?st @ [Num v']"
      "st_dailyReturns (simulation_step params startDate priceData ?st n)
         = st_dailyReturns ?st @ [weekly_return n]"
      "map ev_timestamp (st_rebalanceEvents (simulation_step params startDate priceData ?st n))
         = map ev_timestamp (st_rebalanceEvents ?st)
           @ map (\<lambda>i. date_plus startDate (int i * day_ms)) (filter (\<lambda>i. i mod 7 = 0) [n])"
    by blast
  show ?case
    unfolding unfold
    using v' v(5,6) Suc.hyps by (intro exI [of _ v']) simp
qed

lemma weekly_days: "filter (\<lambda>i. i mod 7 = 0) [1 ..< 30] = [7, 14, 21, 28 :: nat]"
  by code_simp

text \<open>
  Claim C7. A passive run of thirty days over a price that stays at 100 has its rebalance
  events on the days 7, 14, 21 and 28 after the start and on no other day; the daily
  return is the fee of 0.3 percent on those days and zero on every other day.
\<close>

theorem passive_constant_prices:
  assumes "strategy params = Passive" "duration params = 30"
      and "initialCapital params = Num c" "0 < c"
      and "\<bar>now\<bar> \<le> 8640000000000000"
      and "generatePriceData rnd (new_Date (now - 30 * day_ms)) (Date now) (pair params)
             = replicate 30 (Num 100)"
  shows "\<exists>r. runSimulation now rnd params = Inr r
           \<and> map ev_timestamp (rebalanceEvents r)
               = map (\<lambda>i. Date (now - 30 * day_ms + i * day_ms)) [7, 14, 21, 28]
           \<and> dailyReturns r = map weekly_return [1 ..< 30]
           \<and> (\<forall>i. 1 \<le> i \<and> i < 30 \<and> i mod 7 \<noteq> 0 \<longrightarrow> dailyReturns r ! (i - 1) = Num 0)"
proof -
  let ?sd = "new_Date (now - 30 * day_ms)"
  let ?pd = "replicate 30 (Num 100)"
  let ?r = "simulate_prices params ?sd ?pd"
  have start: "new_Date_of (of_int now - 30 * of_int day_ms) = ?sd"
    using start_of_whole_days [of now 30] by simp
  have run: "runSimulation now rnd params = Inr ?r"
    using assms(2,6) by (simp add: runSimulation_def Let_def start)
  have valid: "\<bar>now - 30 * day_ms\<bar> \<le> 8640000000000000"
  proof (rule ccontr)
    assume "\<not> \<bar>now - 30 * day_ms\<bar> \<le> 8640000000000000"
    with length_generatePriceData [of rnd now 30 "pair params"] assms(6) show False by simp
  qed
  then have sd: "?sd = Date (now - 30 * day_ms)" by (simp add: new_Date_def)
  have stamp: "date_plus ?sd (int i * day_ms) = Date (now - 30 * day_ms + int i * day_ms)"
    if "i \<le> 30" for i
  proof -
    have "0 \<le> int i * day_ms" "int i * day_ms \<le> 30 * day_ms"
      using that by (simp_all add: day_ms_def)
    with valid assms(5) have "\<bar>now - 30 * day_ms + int i * day_ms\<bar> \<le> 8640000000000000"
      by linarith
    then have "new_Date (now - 30 * day_ms + int i * day_ms) = Date (now - 30 * day_ms + int i * day_ms)"
      by (simp add: new_Date_def)
    then show ?thesis by (simp only: sd date_plus.simps)
  qed
  have len: "length ?pd = 30" by simp
  from passive_loop [OF assms(1) refl assms(3,4), of 30 30 ?sd]
  have ret: "dailyReturns ?r = map weekly_return [1 ..< 30]"
    and ev: "map ev_timestamp (rebalanceEvents ?r)
               = map (\<lambda>i. date_plus ?sd (int i * day_ms)) (filter (\<lambda>i. i mod 7 = 0) [1 ..< 30])"
    unfolding simulate_prices_fields len by auto
  have ev': "map ev_timestamp (rebalanceEvents ?r)
               = map (\<lambda>i. Date (now - 30 * day_ms + i * day_ms)) [7, 14, 21, 28]"
    unfolding ev weekly_days using stamp [of 7] stamp [of 14] stamp [of 21] stamp [of 28]
    by simp
  have zero: "\<forall>i. 1 \<le> i \<and> i < 30 \<and> i mod 7 \<noteq> 0 \<longrightarrow> dailyReturns ?r ! (i - 1) = Num 0"
    unfolding ret by (auto simp: weekly_return_def simp del: upt_Suc)
  from run ev' ret zero show ?thesis by blast
qed

lemma price_steps_flat:
  "price_steps flat_draws (Num 100) ks = replicate (length ks) (Num 100)"
  by (induction ks) (simp_all add: Let_def flat_draws_def js_sub_def)

lemma flat_prices_30:
  "generatePriceData flat_draws (new_Date (clock_1 - 30 * day_ms)) (Date clock_1) p
     = replicate 30 (Num 100)"
proof -
  have "days_between (new_Date (clock_1 - 30 * day_ms)) (Date clock_1) = Some 30"
    by (simp add: days_between_start) (simp add: clock_1_def day_ms_def)
  then show ?thesis
    by (simp add: generatePriceData_def Let_def price_steps_flat)
       (simp add: numeral_eq_Suc)
qed

text \<open>With the draws that leave the price where it is, the run is of this kind.\<close>

theorem passive_constant_prices_witness:
  "map ev_timestamp (rebalanceEvents (projr (runSimulation clock_1 flat_draws passive_params_30)))
     = [Date (clock_1 - 23 * day_ms), Date (clock_1 - 16 * day_ms),
        Date (clock_1 - 9 * day_ms), Date (clock_1 - 2 * day_ms)]
   \<and> length (dailyReturns (projr (runSimulation clock_1 flat_draws passive_params_30))) = 29
   \<and> dailyReturns (projr (runSimulation clock_1 flat_draws passive_params_30)) ! 0 = Num 0
   \<and> dailyReturns (projr (runSimulation clock_1 flat_draws passive_params_30)) ! 6 = Num (- 3 / 1000)"
proof -
  have h: "strategy passive_params_30 = Passive" "duration passive_params_30 = 30"
          "initialCapital passive_params_30 = Num 10000" "(0::real) < 10000"
          "\<bar>clock_1\<bar> \<le> 8640000000000000"
    by (simp_all add: passive_params_30_def one_day_params_def clock_1_def)
  from passive_constant_prices [OF h flat_prices_30]
  obtain r where r: "runSimulation clock_1 flat_draws passive_params_30 = Inr r"
      "map ev_timestamp (rebalanceEvents r)
         = map (\<lambda>i. Date (clock_1 - 30 * day_ms + i * day_ms)) [7, 14, 21, 28]"
      "dailyReturns r = map weekly_return [1 ..< 30]"
    by blast
  have "dailyReturns r ! 0 = Num 0" "dailyReturns r ! 6 = Num (- 3 / 1000)"
       "length (dailyReturns r) = 29"
    unfolding r(3) by (simp_all add: weekly_return_def del: upt_Suc)
  with r(1,2) show ?thesis by (simp add: day_ms_def)
qed

section \<open>Comparison of strategies\<close>

lemma js_lt_trans: "js_lt x y \<Longrightarrow> js_lt y z \<Longrightarrow> js_lt x z"
  by (cases x; cases y; cases z) auto

lemma js_lt_negtrans:
  "x \<noteq> NaN \<Longrightarrow> y \<noteq> NaN \<Longrightarrow> z \<noteq> NaN \<Longrightarrow> \<not> js_lt x y \<Longrightarrow> \<not> js_lt y z \<Longrightarrow> \<not> js_lt x z"
  by (cases x; cases y; cases z) auto

lemma map_of_distinct_mid:
  "distinct (map fst (xs @ (k, v) # ys)) \<Longrightarrow> map_of (xs @ (k, v) # ys) k = Some v"
  by (induction xs) (auto simp: rev_image_eqI)

lemma reduce_keys_pick:
  assumes ord: "cmp = js_gt \<or> cmp = js_lt"
      and fin: "\<forall>e \<in> set results. field (snd e) \<noteq> NaN"
      and dist: "distinct (map fst results)"
  shows "results = before @ (a, ra) # mid @ todo \<Longrightarrow>
         \<forall>e \<in> set before. \<not> cmp (field (snd e)) (field ra) \<Longrightarrow>
         \<forall>e \<in> set mid. cmp (field ra) (field (snd e)) \<Longrightarrow>
         \<exists>k. reduce_keys (pick results field cmp) a (map fst todo) = Inr k
             \<and> wins_last field cmp results k"
proof (induction todo arbitrary: before a ra mid)
  case Nil
  then show ?case
    by (auto simp: wins_last_def)
next
  case (Cons e todo)
  obtain b rb where e: "e = (b, rb)" by (cases e)
  have trans: "cmp x y \<Longrightarrow> cmp y z \<Longrightarrow> cmp x z" for x y z
    using ord js_lt_trans by (auto simp: js_gt_def)
  have negtrans: "x \<noteq> NaN \<Longrightarrow> y \<noteq> NaN \<Longrightarrow> z \<noteq> NaN \<Longrightarrow> \<not> cmp x y \<Longrightarrow> \<not> cmp y z \<Longrightarrow> \<not> cmp x z"
    for x y z
    using ord js_lt_negtrans [of x y z] js_lt_negtrans [of z y x] by (auto simp: js_gt_def)
  from Cons.prems(1) have "results = before @ (a, ra) # (mid @ e # todo)" by simp
  with dist have la: "map_of results a = Some ra"
    by (simp only: map_of_distinct_mid)
  from Cons.prems(1) e have split: "results = (before @ (a, ra) # mid) @ (b, rb) # todo"
    by simp
  with dist have lb: "map_of results b = Some rb"
    by (simp only: map_of_distinct_mid)
  from fin Cons.prems(1) e have nn: "field ra \<noteq> NaN" "field rb \<noteq> NaN"
      "\<forall>x \<in> set before. field (snd x) \<noteq> NaN" "\<forall>x \<in> set mid. field (snd x) \<noteq> NaN"
    by auto
  show ?case
  proof (cases "cmp (field ra) (field rb)")
    case True
    have r: "results = before @ (a, ra) # (mid @ [(b, rb)]) @ todo"
      using Cons.prems(1) e by simp
    have m: "\<forall>x \<in> set (mid @ [(b, rb)]). cmp (field ra) (field (snd x))"
      using Cons.prems(3) True by simp
    from Cons.IH [OF r Cons.prems(2) m] True la lb e show ?thesis
      by (simp add: pick_def)
  next
    case False
    have r: "results = (before @ (a, ra) # mid) @ (b, rb) # [] @ todo"
      using split by simp
    have p: "\<forall>x \<in> set (before @ (a, ra) # mid). \<not> cmp (field (snd x)) (field rb)"
    proof
      fix x assume "x \<in> set (before @ (a, ra) # mid)"
      then consider "x \<in> set before" | "x = (a, ra)" | "x \<in> set mid" by auto
      then show "\<not> cmp (field (snd x)) (field rb)"
      proof cases
        case 1
        with Cons.prems(2) nn negtrans [of "field (snd x)" "field ra" "field rb"] False
        show ?thesis by blast
      next
        case 2
        with False show ?thesis by simp
      next
        case 3
        with Cons.prems(3) have "cmp (field ra) (field (snd x))" by blast
        with trans [of "field ra" "field (snd x)" "field rb"] False show ?thesis by blast
      qed
    qed
    have m: "\<forall>x \<in> set []. cmp (field rb) (field (snd x))" by simp
    from Cons.IH [OF r p m] False la lb e show ?thesis
      by (simp add: pick_def)
  qed
qed

lemma js_reduce_pick:
  assumes "cmp = js_gt \<or> cmp = js_lt"
      and "\<forall>e \<in> set results. field (snd e) \<noteq> NaN"
      and "distinct (map fst results)" "results \<noteq> []"
  shows "\<exists>k. js_reduce (pick results field cmp) (map fst results) = Inr k
             \<and> wins_last field cmp results k"
proof -
  from assms(4) obtain a ra todo where r: "results = (a, ra) # todo"
    by (cases results) auto
  then have "results = [] @ (a, ra) # [] @ todo" by simp
  from reduce_keys_pick [OF assms(1-3) this] r show ?thesis
    by (simp add: js_reduce_def)
qed

lemma js_total:
  "x \<noteq> NaN \<Longrightarrow> y \<noteq> NaN \<Longrightarrow> js_lt x y \<or> x = y \<or> js_lt y x"
  by (cases x; cases y) auto

text \<open>The winner of \<open>>\<close> has a highest value, the winner of \<open><\<close> a lowest one.\<close>

lemma wins_last_extreme:
  assumes "wins_last field cmp results k"
      and "\<forall>e \<in> set results. field (snd e) \<noteq> NaN"
      and "distinct (map fst results)"
  shows "\<exists>r. map_of results k = Some r
           \<and> (cmp = js_gt \<longrightarrow> (\<forall>e \<in> set results. js_le (field (snd e)) (field r)))
           \<and> (cmp = js_lt \<longrightarrow> (\<forall>e \<in> set results. js_ge (field (snd e)) (field r)))"
proof -
  from assms(1) obtain before r after where
    r: "results = before @ (k, r) # after"
       "\<forall>e \<in> set before. \<not> cmp (field (snd e)) (field r)"
       "\<forall>e \<in> set after. cmp (field r) (field (snd e))"
    by (auto simp: wins_last_def)
  from r(1) assms(3) have look: "map_of results k = Some r"
    by (simp only: map_of_distinct_mid)
  from r(1) assms(2) have nr: "field r \<noteq> NaN" by auto
  have not_cmp: "\<not> cmp (field (snd e)) (field r)" if "e \<in> set results" "cmp = js_gt \<or> cmp = js_lt" for e
  proof -
    from that(1) r(1) consider "e \<in> set before" | "e = (k, r)" | "e \<in> set after" by auto
    then show ?thesis
    proof cases
      case 1
      with r(2) show ?thesis by blast
    next
      case 2
      with nr that(2) show ?thesis by (cases "field r") (auto simp: js_gt_def)
    next
      case 3
      with r(3) have "cmp (field r) (field (snd e))" by blast
      with that(2) show ?thesis
        by (cases "field r"; cases "field (snd e)") (auto simp: js_gt_def)
    qed
  qed
  have gt: "js_le (field (snd e)) (field r)" if "e \<in> set results" "cmp = js_gt" for e
    using not_cmp [OF that(1)] that js_total [of "field (snd e)" "field r"] assms(2) nr
    by (auto simp: js_le_def js_eq_def js_gt_def)
  have lt: "js_ge (field (snd e)) (field r)" if "e \<in> set results" "cmp = js_lt" for e
    using not_cmp [OF that(1)] that js_total [of "field (snd e)" "field r"] assms(2) nr
    by (auto simp: js_ge_def js_le_def js_eq_def)
  from look gt lt show ?thesis by blast
qed

text \<open>
  Claim C5, as amended. For results that are not empty, have distinct keys and no \<open>NaN\<close>
  among their total returns and Sharpe ratios, \<open>compareStrategies\<close> returns as best
  strategy a key of highest total return, as worst strategy a key of lowest total return
  and as risk-adjusted winner a key of highest Sharpe ratio; among candidates that tie,
  the one met last in the order of the input wins (it wins strictly against every
  candidate after it).
\<close>

theorem compareStrategies_last_of_ties:
  assumes "comparable results"
  shows "\<exists>c best worst winner.
           compareStrategies results benchmark = Inr c
           \<and> map_of results (bestStrategy c) = Some best
           \<and> (\<forall>e \<in> set results. js_le (totalReturn (snd e)) (totalReturn best))
           \<and> wins_last totalReturn js_gt results (bestStrategy c)
           \<and> map_of results (worstStrategy c) = Some worst
           \<and> (\<forall>e \<in> set results. js_ge (totalReturn (snd e)) (totalReturn worst))
           \<and> wins_last totalReturn js_lt results (worstStrategy c)
           \<and> map_of results (riskAdjustedWinner c) = Some winner
           \<and> (\<forall>e \<in> set results. js_le (sharpeRatio (snd e)) (sharpeRatio winner))
           \<and> wins_last sharpeRatio js_gt results (riskAdjustedWinner c)"
proof -
  from assms have ne: "results \<noteq> []" and d: "distinct (map fst results)"
    and t: "\<forall>e \<in> set results. totalReturn (snd e) \<noteq> NaN"
    and s: "\<forall>e \<in> set results. sharpeRatio (snd e) \<noteq> NaN"
    by (auto simp: comparable_def)
  from js_reduce_pick [OF _ t d ne, of js_gt] obtain kb where
    kb: "js_reduce (pick results totalReturn js_gt) (map fst results) = Inr kb"
        "wins_last totalReturn js_gt results kb" by blast
  from js_reduce_pick [OF _ t d ne, of js_lt] obtain kw where
    kw: "js_reduce (pick results totalReturn js_lt) (map fst results) = Inr kw"
        "wins_last totalReturn js_lt results kw" by blast
  from js_reduce_pick [OF _ s d ne, of js_gt] obtain kr where
    kr: "js_reduce (pick results sharpeRatio js_gt) (map fst results) = Inr kr"
        "wins_last sharpeRatio js_gt results kr" by blast
  from wins_last_extreme [OF kb(2) t d] obtain best where
    best: "map_of results kb = Some best"
          "\<forall>e \<in> set results. js_le (totalReturn (snd e)) (totalReturn best)" by blast
  from wins_last_extreme [OF kw(2) t d] obtain worst where
    worst: "map_of results kw = Some worst"
           "\<forall>e \<in> set results. js_ge (totalReturn (snd e)) (totalReturn worst)" by blast
  from wins_last_extreme [OF kr(2) s d] obtain winner where
    winner: "map_of results kr = Some winner"
            "\<forall>e \<in> set results. js_le (sharpeRatio (snd e)) (sharpeRatio winner)" by blast
  have run: "compareStrategies results benchmark
               = Inr \<lparr> bestStrategy = kb, worstStrategy = kw, riskAdjustedWinner = kr \<rparr>"
    using kb(1) kw(1) kr(1) by (simp add: compareStrategies_def Let_def)
  show ?thesis
    unfolding run
    using kb(2) kw(2) kr(2) best worst winner
    by (intro exI [of _ "\<lparr> bestStrategy = kb, worstStrategy = kw, riskAdjustedWinner = kr \<rparr>"]
              exI [of _ best] exI [of _ worst] exI [of _ winner]) simp
qed

lemma compare_example:
  "compareStrategies example_results None
     = Inr \<lparr> bestStrategy = ''B'', worstStrategy = ''A'', riskAdjustedWinner = ''B'' \<rparr>"
  by (simp add: compareStrategies_def example_results_def result_with_def js_reduce_def
        pick_def js_gt_def Let_def)

text \<open>
  Claim C5 as stated fails at two results that tie on every metric: the second key wins
  each comparison, not the first.
\<close>

theorem compareStrategies_tie_picks_later:
  "compareStrategies tied_results None
     = Inr \<lparr> bestStrategy = ''B'', worstStrategy = ''B'', riskAdjustedWinner = ''B'' \<rparr>"
  by (simp add: compareStrategies_def tied_results_def result_with_def js_reduce_def
        pick_def js_gt_def Let_def)

text \<open>The results \<open>A\<close> with 0.10 and \<open>B\<close> with 0.25: the best is \<open>B\<close>, the worst \<open>A\<close>.\<close>

theorem compareStrategies_last_of_ties_witness:
  "comparable example_results
   \<and> compareStrategies example_results None
       = Inr \<lparr> bestStrategy = ''B'', worstStrategy = ''A'', riskAdjustedWinner = ''B'' \<rparr>
   \<and> wins_last totalReturn js_gt example_results ''B''
   \<and> wins_last totalReturn js_lt example_results ''A''"
proof -
  have c: "comparable example_results"
    by (simp add: comparable_def example_results_def result_with_def)
  from compareStrategies_last_of_ties [OF c, of None] c show ?thesis
    by (auto simp: compare_example)
qed

end
